theory Spec2Isabelle
  imports Main "HOL-Library.Word" "HOL-Library.AList"
begin

unbundle bit_operations_syntax

section \<open>JavaScript values\<close>

text \<open>
  The library in \<^verbatim>\<open>sources/index.ts\<close> receives values of type \<^verbatim>\<open>unknown\<close>. The rules
  look at three things only: the result of \<^verbatim>\<open>typeof\<close>, strict equality \<^verbatim>\<open>===\<close>, and, for
  strings, the sequence of UTF-16 code units that a regular expression reads.

  A number is an IEEE 754 double, kept as its 64 bits; that is enough for \<^verbatim>\<open>===\<close>, which is
  all the rules modelled here ask of a number. A string is its list of code units. Objects,
  functions and symbols are compared by identity, so they are kept as a reference.
\<close>

type_synonym code_unit = nat
type_synonym float64 = "64 word"

datatype jsvalue =
    Undefined
  | Null
  | Boolean bool
  | Number float64
  | BigInt int
  | String "code_unit list"
  | Symbol nat
  | Function nat
  | Object nat

fun typeof :: "jsvalue \<Rightarrow> string" where
  "typeof Undefined = ''undefined''"
| "typeof Null = ''object''"
| "typeof (Boolean b) = ''boolean''"
| "typeof (Number x) = ''number''"
| "typeof (BigInt n) = ''bigint''"
| "typeof (String s) = ''string''"
| "typeof (Symbol a) = ''symbol''"
| "typeof (Function a) = ''function''"
| "typeof (Object a) = ''object''"

definition is_nan :: "float64 \<Rightarrow> bool" where
  "is_nan x = (x AND 0x7FF0000000000000 = 0x7FF0000000000000 \<and> x AND 0x000FFFFFFFFFFFFF \<noteq> 0)"

definition is_zero :: "float64 \<Rightarrow> bool" where
  "is_zero x = (x AND 0x7FFFFFFFFFFFFFFF = 0)"

text \<open>
  \<^verbatim>\<open>Number::equal\<close> of ECMAScript: NaN equals nothing, the two zeros equal each other, and any
  other two doubles are equal when they are the same double.
\<close>

definition number_equal :: "float64 \<Rightarrow> float64 \<Rightarrow> bool" where
  "number_equal x y = (\<not> is_nan x \<and> \<not> is_nan y \<and> (x = y \<or> (is_zero x \<and> is_zero y)))"

text \<open>The operator \<^verbatim>\<open>===\<close>: values of different types differ; numbers compare as above.\<close>

fun strict_equals :: "jsvalue \<Rightarrow> jsvalue \<Rightarrow> bool" where
  "strict_equals (Number x) (Number y) = number_equal x y"
| "strict_equals a b = (a = b)"

text \<open>The code units of a string literal whose characters are all below U+0100.\<close>

definition utf16 :: "string \<Rightarrow> code_unit list" where
  "utf16 = map of_char"

section \<open>Regular expressions\<close>

text \<open>
  The fragment of ECMAScript patterns that the two literals of the source use, with no flag
  set: character classes and their negation, the dot, sequence, alternative, the greedy
  quantifiers \<^verbatim>\<open>*\<close>, \<^verbatim>\<open>+\<close> and \<^verbatim>\<open>{n,}\<close>, the lookahead \<^verbatim>\<open>(?=...)\<close> and the assertions \<^verbatim>\<open>^\<close> and
  \<^verbatim>\<open>$\<close>. Groups capture nothing that \<^verbatim>\<open>test\<close> reads, so they are not represented.
\<close>

datatype regex =
    Chars "(code_unit \<times> code_unit) list"
  | NotChars "(code_unit \<times> code_unit) list"
  | Dot
  | Seq regex regex
  | Alt regex regex
  | Repeat nat regex
  | Lookahead regex
  | Bol
  | Eol

abbreviation Star :: "regex \<Rightarrow> regex" where
  "Star a \<equiv> Repeat 0 a"

abbreviation Plus :: "regex \<Rightarrow> regex" where
  "Plus a \<equiv> Repeat (Suc 0) a"

abbreviation Chr :: "code_unit \<Rightarrow> regex" where
  "Chr c \<equiv> Chars [(c, c)]"

definition in_ranges :: "code_unit \<Rightarrow> (code_unit \<times> code_unit) list \<Rightarrow> bool" where
  "in_ranges c ranges = (\<exists>(lo, hi) \<in> set ranges. lo \<le> c \<and> c \<le> hi)"

text \<open>Without the \<^verbatim>\<open>s\<close> flag the dot matches any code unit but LF, CR, U+2028 and U+2029.\<close>

definition line_terminator :: "code_unit \<Rightarrow> bool" where
  "line_terminator c = (c = 0x0A \<or> c = 0x0D \<or> c = 0x2028 \<or> c = 0x2029)"

fun weight :: "regex \<Rightarrow> nat" where
  "weight (Seq a b) = Suc (weight a + weight b)"
| "weight (Alt a b) = Suc (weight a + weight b)"
| "weight (Repeat n a) = Suc (n + weight a)"
| "weight (Lookahead a) = Suc (weight a)"
| "weight a = 0"

text \<open>
  A position is the number of code units before it and the code units after it.
  \<open>rems a x\<close> lists the positions at which a match of \<open>a\<close> that starts at \<open>x\<close> can end, every
  way of backtracking included. Once the minimum of a quantifier is reached, an iteration
  that consumes nothing is refused, as the RepeatMatcher of ECMAScript does.
\<close>

function rems :: "regex \<Rightarrow> nat \<times> code_unit list \<Rightarrow> (nat \<times> code_unit list) list" where
  "rems (Chars ranges) x =
     (case snd x of [] \<Rightarrow> [] | c # cs \<Rightarrow> if in_ranges c ranges then [(Suc (fst x), cs)] else [])"
| "rems (NotChars ranges) x =
     (case snd x of [] \<Rightarrow> [] | c # cs \<Rightarrow> if in_ranges c ranges then [] else [(Suc (fst x), cs)])"
| "rems Dot x =
     (case snd x of [] \<Rightarrow> [] | c # cs \<Rightarrow> if line_terminator c then [] else [(Suc (fst x), cs)])"
| "rems (Seq a b) x = concat (map (rems b) (rems a x))"
| "rems (Alt a b) x = rems a x @ rems b x"
| "rems (Repeat 0 a) x =
     x # concat (map (rems (Repeat 0 a)) (filter (\<lambda>y. length (snd y) < length (snd x)) (rems a x)))"
| "rems (Repeat (Suc n) a) x = concat (map (rems (Repeat n a)) (rems a x))"
| "rems (Lookahead a) x = (if rems a x = [] then [] else [x])"
| "rems Bol x = (if fst x = 0 then [x] else [])"
| "rems Eol x = (if snd x = [] then [x] else [])"
  by pat_completeness auto
termination
  by (relation "measures [\<lambda>(a, x). weight a, \<lambda>(a, x). length (snd x)]") auto

text \<open>\<^verbatim>\<open>RegExp.prototype.test\<close> without the \<^verbatim>\<open>g\<close> and \<^verbatim>\<open>y\<close> flags: a match may start anywhere.\<close>

definition test :: "regex \<Rightarrow> code_unit list \<Rightarrow> bool" where
  "test a s = (\<exists>i \<in> set [0..<Suc (length s)]. rems a (i, drop i s) \<noteq> [])"

section \<open>Rules\<close>

text \<open>
  \<^verbatim>\<open>SchemaTarget\<close>: the object under validation. \<^verbatim>\<open>target[name]\<close> reads the object's own
  property of that name, then what it inherits along its prototype chain, and gives
  \<^verbatim>\<open>undefined\<close> when neither is there.
\<close>

record schemaTarget =
  own :: "string \<rightharpoonup> jsvalue"
  inherited :: "string \<rightharpoonup> jsvalue"

definition get :: "schemaTarget \<Rightarrow> string \<Rightarrow> jsvalue" where
  "get target property =
     (case own target property of
        Some value \<Rightarrow> value
      | None \<Rightarrow> (case inherited target property of Some value \<Rightarrow> value | None \<Rightarrow> Undefined))"

text \<open>
  An object literal inherits from \<^verbatim>\<open>Object.prototype\<close>. Its properties are those of ECMAScript
  (sections 20.1.3 and B.2.2), each built-in function a reference of its own; reading
  \<^verbatim>\<open>__proto__\<close> gives the prototype object itself. None of them is enumerable, so neither
  \<^verbatim>\<open>for ... in\<close> nor \<^verbatim>\<open>Object.entries\<close> lists them.
\<close>

definition object_prototype :: "string \<rightharpoonup> jsvalue" where
  "object_prototype =
     [''constructor'' \<mapsto> Function 0,
      ''__defineGetter__'' \<mapsto> Function 1,
      ''__defineSetter__'' \<mapsto> Function 2,
      ''hasOwnProperty'' \<mapsto> Function 3,
      ''__lookupGetter__'' \<mapsto> Function 4,
      ''__lookupSetter__'' \<mapsto> Function 5,
      ''isPrototypeOf'' \<mapsto> Function 6,
      ''propertyIsEnumerable'' \<mapsto> Function 7,
      ''toString'' \<mapsto> Function 8,
      ''valueOf'' \<mapsto> Function 9,
      ''__proto__'' \<mapsto> Object 10,
      ''toLocaleString'' \<mapsto> Function 11]"

definition literal :: "(string \<rightharpoonup> jsvalue) \<Rightarrow> schemaTarget" where
  "literal properties = \<lparr>own = properties, inherited = object_prototype\<rparr>"

text \<open>
  \<^verbatim>\<open>Rule\<close> is an object with the one method \<^verbatim>\<open>isValid(target, property, value)\<close>, which returns
  a promise of a boolean. A rule is modelled by that method. The promise either resolves to
  a boolean (\<open>Inr\<close>) or rejects with a reason (\<open>Inl\<close>); since a rule may do input and output,
  the method also reads and returns the state \<open>'w\<close> of everything outside the engine.
\<close>

type_synonym reason = jsvalue
type_synonym 'w rule = "schemaTarget \<Rightarrow> string \<Rightarrow> jsvalue \<Rightarrow> 'w \<Rightarrow> (reason + bool) \<times> 'w"
type_synonym 'w schema = "(string \<times> (string \<times> 'w rule) list) list"

definition isNumber :: "'w rule" where
  "isNumber = (\<lambda>target property value w. (Inr (typeof value = ''number''), w))"

definition isNumberEqualTo :: "float64 \<Rightarrow> 'w rule" where
  "isNumberEqualTo expectedValue =
     (\<lambda>target property value w.
        (Inr (typeof value = ''number'' \<and> strict_equals (Number expectedValue) value), w))"

definition isNumberNotEqualTo :: "float64 \<Rightarrow> 'w rule" where
  "isNumberNotEqualTo expectedValue =
     (\<lambda>target property value w.
        (Inr (typeof value = ''number'' \<and> \<not> strict_equals (Number expectedValue) value), w))"

definition isEqualToProperty :: "string \<Rightarrow> 'w rule" where
  "isEqualToProperty otherProperty =
     (\<lambda>target property value w. (Inr (strict_equals (get target otherProperty) value), w))"

definition isNotEqualToProperty :: "string \<Rightarrow> 'w rule" where
  "isNotEqualToProperty otherProperty =
     (\<lambda>target property value w. (Inr (\<not> strict_equals (get target otherProperty) value), w))"

text \<open>
  The literal of \<^verbatim>\<open>isEmail\<close>, piece by piece. \<open>atom\<close> is the class
  \<^verbatim>\<open>[^\x00-\x20\x22\x28\x29\x2c\x2e\x3a-\x3c\x3e\x40\x5b-\x5d\x7f-\xff]\<close>, which the literal
  repeats four times.
\<close>

definition atom :: regex where
  "atom = NotChars [(0x00, 0x20), (0x22, 0x22), (0x28, 0x28), (0x29, 0x29), (0x2c, 0x2c),
     (0x2e, 0x2e), (0x3a, 0x3c), (0x3e, 0x3e), (0x40, 0x40), (0x5b, 0x5d), (0x7f, 0xff)]"

definition quoted :: regex where
  "quoted = Seq (Chr 0x22)
     (Seq (Star (Alt (NotChars [(0x0d, 0x0d), (0x22, 0x22), (0x5c, 0x5c), (0x80, 0xff)])
                     (Seq (Chr 0x5c) (Chars [(0x00, 0x7f)]))))
          (Chr 0x22))"

definition bracketed :: regex where
  "bracketed = Seq (Chr 0x5b)
     (Seq (Star (Alt (NotChars [(0x0d, 0x0d), (0x5b, 0x5d), (0x80, 0xff)])
                     (Seq (Chr 0x5c) (Chars [(0x00, 0x7f)]))))
          (Chr 0x5d))"

definition word_char :: regex where
  "word_char = Chars [(0x41, 0x5a), (0x61, 0x7a), (0x30, 0x39), (0x5f, 0x5f)]"

definition email_regex :: regex where
  "email_regex =
     Seq Bol
    (Seq (Alt (Plus atom) quoted)
    (Seq (Star (Seq (Chr 0x2e) (Alt (Plus atom) quoted)))
    (Seq (Chr 0x40)
    (Seq (Alt (Plus atom) bracketed)
    (Seq (Star (Seq (Chr 0x2e) (Alt (Plus atom) bracketed)))
    (Seq (Plus (Seq (Chr 0x2e) (Repeat 2 word_char)))
         Eol))))))"

definition isEmail :: "'w rule" where
  "isEmail =
     (\<lambda>target property value w.
        (Inr (case value of String s \<Rightarrow> test email_regex s | _ \<Rightarrow> False), w))"

text \<open>
  The pattern of \<^verbatim>\<open>isPassword\<close> is the constant template string
  \<^verbatim>\<open>^(?=.*[0-9])(?=.*[a-z])(?=.*[A-Z])(?=.*[^0-9a-zA-Z]).{8,}$\<close>; the parameter \<^verbatim>\<open>minimum\<close>
  (default 8) does not occur in it.
\<close>

definition password_regex :: regex where
  "password_regex =
     Seq Bol
    (Seq (Lookahead (Seq (Star Dot) (Chars [(0x30, 0x39)])))
    (Seq (Lookahead (Seq (Star Dot) (Chars [(0x61, 0x7a)])))
    (Seq (Lookahead (Seq (Star Dot) (Chars [(0x41, 0x5a)])))
    (Seq (Lookahead (Seq (Star Dot) (NotChars [(0x30, 0x39), (0x61, 0x7a), (0x41, 0x5a)])))
    (Seq (Repeat 8 Dot)
         Eol)))))"

definition isPassword :: "nat \<Rightarrow> 'w rule" where
  "isPassword minimum =
     (\<lambda>target property value w.
        (Inr (case value of String s \<Rightarrow> test password_regex s | _ \<Rightarrow> False), w))"

text \<open>
  \<^verbatim>\<open>doesMatch\<close> and \<^verbatim>\<open>doesNotMatch\<close> take any \<^verbatim>\<open>RegExp\<close> object. Its method \<^verbatim>\<open>test\<close> may throw
  (\<open>Inl\<close>) and may change state (the \<^verbatim>\<open>lastIndex\<close> of a pattern with the \<^verbatim>\<open>g\<close> flag), so the
  object is modelled by that method. \<^verbatim>\<open>typeof\<close> is evaluated first and cannot throw; the
  \<^verbatim>\<open>catch\<close> block returns \<^verbatim>\<open>false\<close>.
\<close>

type_synonym 'w regExp = "code_unit list \<Rightarrow> 'w \<Rightarrow> (reason + bool) \<times> 'w"

definition regExp :: "regex \<Rightarrow> 'w regExp" where
  "regExp a = (\<lambda>s w. (Inr (test a s), w))"

definition doesMatch :: "'w regExp \<Rightarrow> 'w rule" where
  "doesMatch regex =
     (\<lambda>target property value w.
        case value of
          String s \<Rightarrow>
            (case regex s w of
               (Inr matched, w') \<Rightarrow> (Inr matched, w')
             | (Inl error, w') \<Rightarrow> (Inr False, w'))
        | _ \<Rightarrow> (Inr False, w))"

definition doesNotMatch :: "'w regExp \<Rightarrow> 'w rule" where
  "doesNotMatch regex =
     (\<lambda>target property value w.
        case value of
          String s \<Rightarrow>
            (case regex s w of
               (Inr matched, w') \<Rightarrow> (Inr (\<not> matched), w')
             | (Inl error, w') \<Rightarrow> (Inr False, w'))
        | _ \<Rightarrow> (Inr False, w))"

section \<open>The validator\<close>

text \<open>
  \<^verbatim>\<open>SchemaValidations\<close>. An object is the list of its own properties; the schema, the report
  and the groups inside the report are such lists. \<open>AList.update\<close> is what both the object
  literal \<^verbatim>\<open>{...o, [k]: v}\<close> and the assignment \<^verbatim>\<open>o[k] = v\<close> do to the properties: a key that
  is there keeps its place and takes the new value, a new key goes last. (The order in which
  JavaScript lists keys that look like array indices is not modelled; no rule reads it.)
  Under a key of the report there is either a boolean or a group of booleans.
\<close>

datatype validation = Flag bool | Flags "(string \<times> bool) list"

type_synonym schemaValidations = "(string \<times> validation) list"

definition fromEntries :: "('k \<times> 'v) list \<Rightarrow> ('k \<times> 'v) list" where
  "fromEntries entries = foldl (\<lambda>object (key, value). AList.update key value object) [] entries"

text \<open>Spreading \<^verbatim>\<open>...validations[property]\<close>: \<^verbatim>\<open>undefined\<close> and a boolean have no own property.\<close>

fun spread :: "validation option \<Rightarrow> (string \<times> bool) list" where
  "spread (Some (Flags flags)) = flags"
| "spread other = []"

definition initialValidation :: "'w schema \<Rightarrow> schemaValidations" where
  "initialValidation schema =
     AList.update ''isValid'' (Flag False)
       (fromEntries (map (\<lambda>(property, rules).
          (property, Flags (fromEntries (map (\<lambda>(ruleName, rule). (ruleName, False)) rules))))
          schema))"

text \<open>The inner loop \<^verbatim>\<open>for (const ruleName in rules)\<close> of \<^verbatim>\<open>validate\<close>, one rule awaited at a time.\<close>

fun validate_rules ::
  "(string \<times> 'w rule) list \<Rightarrow> schemaTarget \<Rightarrow> string \<Rightarrow> jsvalue \<Rightarrow>
   schemaValidations \<times> bool \<times> bool \<Rightarrow> 'w \<Rightarrow> (reason + schemaValidations \<times> bool \<times> bool) \<times> 'w"
where
  "validate_rules [] target property value (validations, isValid, isValidProperty) w =
     (Inr (validations, isValid, isValidProperty), w)"
| "validate_rules ((ruleName, rule) # rules) target property value
     (validations, isValid, isValidProperty) w =
     (case rule target property value w of
        (Inl rejection, w') \<Rightarrow> (Inl rejection, w')
      | (Inr True, w') \<Rightarrow>
          validate_rules rules target property value
            (AList.update property
               (Flags (AList.update ruleName True (spread (map_of validations property))))
               validations,
             isValid, isValidProperty) w'
      | (Inr False, w') \<Rightarrow>
          validate_rules rules target property value
            (AList.update property
               (Flags (AList.update ruleName False (spread (map_of validations property))))
               validations,
             False, False) w')"

text \<open>The outer loop \<^verbatim>\<open>for (const property in schema)\<close>.\<close>

fun validate_properties ::
  "'w schema \<Rightarrow> schemaTarget \<Rightarrow> schemaValidations \<times> bool \<Rightarrow> 'w \<Rightarrow>
   (reason + schemaValidations \<times> bool) \<times> 'w"
where
  "validate_properties [] target (validations, isValid) w = (Inr (validations, isValid), w)"
| "validate_properties ((property, rules) # schema) target (validations, isValid) w =
     (case validate_rules rules target property (get target property)
             (validations, isValid, True) w of
        (Inl rejection, w') \<Rightarrow> (Inl rejection, w')
      | (Inr (validations', isValid', isValidProperty), w') \<Rightarrow>
          validate_properties schema target
            (AList.update property
               (Flags (AList.update ''isValid'' isValidProperty
                  (spread (map_of validations' property))))
               validations',
             isValid') w')"

definition validate :: "'w schema \<Rightarrow> schemaTarget \<Rightarrow> 'w \<Rightarrow> (reason + schemaValidations) \<times> 'w" where
  "validate schema target w =
     (let validations =
        fromEntries (map (\<lambda>(property, rules).
          (property,
           Flags (AList.update ''isValid'' False
             (fromEntries (map (\<lambda>(ruleName, rule). (ruleName, False)) rules)))))
          schema)
      in case validate_properties schema target (validations, True) w of
           (Inl rejection, w') \<Rightarrow> (Inl rejection, w')
         | (Inr (validations', isValid), w') \<Rightarrow>
             (Inr (AList.update ''isValid'' (Flag isValid) validations'), w'))"

text \<open>\<^verbatim>\<open>createValidator\<close> returns the two together.\<close>

record 'w validator =
  validator_initialValidation :: schemaValidations
  validator_validate :: "schemaTarget \<Rightarrow> 'w \<Rightarrow> (reason + schemaValidations) \<times> 'w"

definition createValidator :: "'w schema \<Rightarrow> 'w validator" where
  "createValidator schema =
     \<lparr>validator_initialValidation = initialValidation schema,
      validator_validate = validate schema\<rparr>"

section \<open>Reading a report\<close>

text \<open>
  \<^verbatim>\<open>report[property][key]\<close> and \<^verbatim>\<open>report.isValid\<close>, with \<open>None\<close> where JavaScript reads
  \<^verbatim>\<open>undefined\<close> or something that is not a boolean.
\<close>

definition outcome :: "schemaValidations \<Rightarrow> string \<Rightarrow> string \<Rightarrow> bool option" where
  "outcome report property key =
     (case map_of report property of Some (Flags flags) \<Rightarrow> map_of flags key | _ \<Rightarrow> None)"

definition isValid_of :: "schemaValidations \<Rightarrow> bool option" where
  "isValid_of report = (case map_of report ''isValid'' of Some (Flag b) \<Rightarrow> Some b | _ \<Rightarrow> None)"

text \<open>
  The aggregation invariant of a report: the top-level flag is the conjunction of the
  properties' flags, and a property's flag is the conjunction of what the report holds for
  its rules.
\<close>

definition aggregated :: "'w schema \<Rightarrow> schemaValidations \<Rightarrow> bool" where
  "aggregated schema report =
     (isValid_of report =
        Some (\<forall>(property, rules) \<in> set schema. outcome report property ''isValid'' = Some True) \<and>
      (\<forall>(property, rules) \<in> set schema.
         outcome report property ''isValid'' =
           Some (\<forall>(ruleName, rule) \<in> set rules. outcome report property ruleName = Some True)))"

text \<open>
  A schema is a JavaScript object of objects, so no key occurs twice at either level. The
  lists that stand for it are required to say the same.
\<close>

definition unique_keys :: "'w schema \<Rightarrow> bool" where
  "unique_keys schema =
     (distinct (map fst schema) \<and> (\<forall>(property, rules) \<in> set schema. distinct (map fst rules)))"



text \<open>
  The schemas of the test file, and some doubles. The double 42 has sign 0, exponent 1028
  and fraction \<^verbatim>\<open>0x5000000000000\<close>: 1.3125 times 2 to the 5; 43 is 1.34375 times 2 to the 5.
\<close>

definition forty_two :: float64 where
  "forty_two = 0x4045000000000000"

definition positive_zero :: float64 where "positive_zero = 0"
definition negative_zero :: float64 where "negative_zero = 0x8000000000000000"
definition forty_three :: float64 where "forty_three = 0x4045800000000000"
definition not_a_number :: float64 where "not_a_number = 0x7FF8000000000000"

definition email_schema :: "'w schema" where
  "email_schema = [(''email'', [(''isValidEmail'', isEmail)])]"

definition answer_schema :: "'w schema" where
  "answer_schema = [(''answer'', [(''isValidAnswer'', isNumberEqualTo forty_two)])]"

text \<open>
  How far a run of dots can go from the start of a string: the length of its longest
  prefix without a line terminator.
\<close>

definition dot_run :: "code_unit list \<Rightarrow> nat" where
  "dot_run s = length (takeWhile (\<lambda>c. \<not> line_terminator c) s)"

text \<open>
  What the documentation asks of a password, in its own words: at least \<open>m\<close> code units,
  with a lower case letter, an upper case letter, a digit and a symbol among them. This is
  the yardstick the rule \<open>isPassword\<close> is compared with, not a translation of code.
\<close>

definition strong_password :: "nat \<Rightarrow> code_unit list \<Rightarrow> bool" where
  "strong_password m v =
     (m \<le> length v \<and>
      (\<exists>c \<in> set v. 0x61 \<le> c \<and> c \<le> 0x7a) \<and>
      (\<exists>c \<in> set v. 0x41 \<le> c \<and> c \<le> 0x5a) \<and>
      (\<exists>c \<in> set v. 0x30 \<le> c \<and> c \<le> 0x39) \<and>
      (\<exists>c \<in> set v. \<not> (0x30 \<le> c \<and> c \<le> 0x39) \<and> \<not> (0x61 \<le> c \<and> c \<le> 0x7a) \<and>
                     \<not> (0x41 \<le> c \<and> c \<le> 0x5a)))"

section \<open>Following a run\<close>

text \<open>
  What \<^verbatim>\<open>target[name]\<close> reads, as a relation: the own property, else the inherited one, else
  \<^verbatim>\<open>undefined\<close>.
\<close>

definition reads :: "schemaTarget \<Rightarrow> string \<Rightarrow> jsvalue \<Rightarrow> bool" where
  "reads target name found =
     (own target name = Some found \<or>
      (own target name = None \<and>
        (inherited target name = Some found \<or>
         (inherited target name = None \<and> found = Undefined))))"

text \<open>
  The rule calls of one pass, in the order of the two loops, each with the property it
  checks. \<open>resolve_all\<close> follows a run of calls from an outside state as long as every call
  resolves, and gives the state the last one leaves; \<open>follow\<close> follows it to the first
  rejection. Neither looks at a report.
\<close>

definition calls :: "'w schema \<Rightarrow> (string \<times> string \<times> 'w rule) list" where
  "calls schema =
     concat (map (\<lambda>(property, rules). map (\<lambda>(ruleName, rule). (property, ruleName, rule)) rules)
       schema)"

fun resolve_all :: "(string \<times> string \<times> 'w rule) list \<Rightarrow> schemaTarget \<Rightarrow> 'w \<Rightarrow> 'w option" where
  "resolve_all [] target w = Some w"
| "resolve_all ((property, ruleName, rule) # later) target w =
     (case rule target property (get target property) w of
        (Inr passed, w') \<Rightarrow> resolve_all later target w'
      | (Inl rejection, w') \<Rightarrow> None)"

fun follow :: "(string \<times> string \<times> 'w rule) list \<Rightarrow> schemaTarget \<Rightarrow> 'w \<Rightarrow> reason option \<times> 'w" where
  "follow [] target w = (None, w)"
| "follow ((property, ruleName, rule) # later) target w =
     (case rule target property (get target property) w of
        (Inr passed, w') \<Rightarrow> follow later target w'
      | (Inl rejection, w') \<Rightarrow> (Some rejection, w'))"

section \<open>Objects and their addresses\<close>

text \<open>
  To tell one report object from another, \<open>validate\<close> is written once more over a store. An
  address is the position of an object in the store, and a new object goes to its end, so
  the addresses below the length of the store are those in use. A report object holds, under
  each key, a boolean or the address of a group of booleans.

  Every object expression of \<open>validate\<close> that makes an object allocates here:
  \<^verbatim>\<open>Object.fromEntries\<close> and the literals \<^verbatim>\<open>{...}\<close>. (The arrays of \<^verbatim>\<open>Object.entries\<close> and
  \<^verbatim>\<open>map\<close> hold no part of a report and are left out.)
\<close>

type_synonym address = nat

datatype slot = Direct bool | Pointer address

datatype object = Group "(string \<times> bool) list" | Report "(string \<times> slot) list"

type_synonym heap = "object list"

text \<open>
  Reading the own properties of the object at an address, for \<^verbatim>\<open>...validations\<close>, and those
  of the group under a property, for \<^verbatim>\<open>...validations[property]\<close>.
\<close>

definition properties_of :: "heap \<Rightarrow> address \<Rightarrow> (string \<times> slot) list" where
  "properties_of h a =
     (if a < length h
      then (case h ! a of Report properties \<Rightarrow> properties
            | Group flags \<Rightarrow> map (\<lambda>(key, b). (key, Direct b)) flags)
      else [])"






text \<open>
  The first report of \<open>validate\<close> (lines 160 to 173): for each property the literal with
  \<^verbatim>\<open>isValid: false\<close>, which is what the report points to, and the object of
  \<^verbatim>\<open>Object.fromEntries\<close> over the rule names that it spreads; and last the object of the outer
  \<^verbatim>\<open>Object.fromEntries\<close>, once every property has its literal.
\<close>

fun seed :: "'w schema \<Rightarrow> heap \<Rightarrow> (string \<times> slot) list \<times> heap" where
  "seed [] h = ([], h)"
| "seed ((property, rules) # schema) h =
     (case seed schema
        (h @ [Group (AList.update ''isValid'' False
                (fromEntries (map (\<lambda>(ruleName, rule). (ruleName, False)) rules))),
              Group (fromEntries (map (\<lambda>(ruleName, rule). (ruleName, False)) rules))]) of
        (entries, h') \<Rightarrow> ((property, Pointer (length h)) # entries, h'))"





section \<open>Objects as lists\<close>

lemma update_fresh: "k \<notin> fst ` set al \<Longrightarrow> AList.update k v al = al @ [(k, v)]"
  by (induction al) auto

lemma foldl_update_distinct:
  "distinct (map fst (acc @ es)) \<Longrightarrow>
   foldl (\<lambda>object (key, value). AList.update key value object) acc es = acc @ es"
proof (induction es arbitrary: acc)
  case Nil
  then show ?case by simp
next
  case (Cons e es)
  obtain k v where e: "e = (k, v)" by (cases e)
  from Cons.prems have fresh: "k \<notin> fst ` set acc" by (auto simp: e)
  from Cons.prems have "distinct (map fst ((acc @ [(k, v)]) @ es))" by (simp add: e)
  from Cons.IH [OF this] show ?case by (simp add: e update_fresh [OF fresh])
qed

lemma fromEntries_distinct: "distinct (map fst es) \<Longrightarrow> fromEntries es = es"
  using foldl_update_distinct [of "[]" es] by (simp add: fromEntries_def)

section \<open>The two loops of validate\<close>

text \<open>
  The inner loop touches one property of the report only, and under it leaves every key
  that is not a rule name as it was. What it stores for a rule is what the rule answered.
\<close>

lemma validate_rules_frame:
  "validate_rules rules target property value acc w = (Inr acc', w') \<Longrightarrow> q \<noteq> property \<Longrightarrow>
   map_of (fst acc') q = map_of (fst acc) q"
  by (induction rules target property "value" acc w rule: validate_rules.induct)
     (auto split: prod.splits sum.splits bool.splits if_splits simp: update_conv')

lemma validate_rules_flags:
  assumes "validate_rules rules target property value (V, a, ap) w = (Inr (V', a', ap'), w')"
    and "distinct (map fst rules)"
    and "map_of V property = Some (Flags g)"
  shows "\<exists>g'. map_of V' property = Some (Flags g') \<and>
           (\<forall>k. k \<notin> fst ` set rules \<longrightarrow> map_of g' k = map_of g k) \<and>
           (\<forall>(r, rule) \<in> set rules. \<exists>b w0 w1.
               rule target property value w0 = (Inr b, w1) \<and> map_of g' r = Some b) \<and>
           a' = (a \<and> (\<forall>(r, rule) \<in> set rules. map_of g' r = Some True)) \<and>
           ap' = (ap \<and> (\<forall>(r, rule) \<in> set rules. map_of g' r = Some True))"
  using assms
proof (induction rules arbitrary: V a ap w g)
  case Nil
  then show ?case by simp
next
  case (Cons x rules)
  obtain r rule where x: "x = (r, rule)" by (cases x)
  obtain res w1 where call: "rule target property value w = (res, w1)" by (cases "rule target property value w")
  from Cons.prems(1) obtain b where res: "res = Inr b"
    by (cases res) (auto simp: x call)
  let ?g1 = "AList.update r b g"
  let ?V1 = "AList.update property (Flags ?g1) V"
  from Cons.prems(1) Cons.prems(3)
  have run: "validate_rules rules target property value (?V1, a \<and> b, ap \<and> b) w1 = (Inr (V', a', ap'), w')"
    by (cases b) (simp_all add: x call res)
  have d: "distinct (map fst rules)" and fresh: "r \<notin> fst ` set rules"
    using Cons.prems(2) by (auto simp: x)
  have g1: "map_of ?V1 property = Some (Flags ?g1)"
    by (simp add: update_conv')
  from Cons.IH [OF run d g1] obtain g' where
      V': "map_of V' property = Some (Flags g')"
    and keep: "\<forall>k. k \<notin> fst ` set rules \<longrightarrow> map_of g' k = map_of ?g1 k"
    and outs: "\<forall>(r, rule) \<in> set rules. \<exists>b w0 w1.
               rule target property value w0 = (Inr b, w1) \<and> map_of g' r = Some b"
    and a': "a' = ((a \<and> b) \<and> (\<forall>(r, rule) \<in> set rules. map_of g' r = Some True))"
    and ap': "ap' = ((ap \<and> b) \<and> (\<forall>(r, rule) \<in> set rules. map_of g' r = Some True))"
    by blast
  from keep fresh have here: "map_of g' r = Some b"
    by (simp add: update_conv')
  have "\<forall>k. k \<notin> fst ` set (x # rules) \<longrightarrow> map_of g' k = map_of g k"
    using keep by (auto simp: x update_conv')
  moreover have "\<forall>(r, rule) \<in> set (x # rules). \<exists>b w0 w1.
               rule target property value w0 = (Inr b, w1) \<and> map_of g' r = Some b"
    using outs here call res by (auto simp: x)
  moreover have "a' = (a \<and> (\<forall>(r, rule) \<in> set (x # rules). map_of g' r = Some True))"
    using a' here by (auto simp: x)
  moreover have "ap' = (ap \<and> (\<forall>(r, rule) \<in> set (x # rules). map_of g' r = Some True))"
    using ap' here by (auto simp: x)
  ultimately show ?case using V' by blast
qed

lemma validate_properties_frame:
  "validate_properties schema target acc w = (Inr acc', w') \<Longrightarrow> q \<notin> fst ` set schema \<Longrightarrow>
   map_of (fst acc') q = map_of (fst acc) q"
proof (induction schema arbitrary: acc w)
  case Nil
  then show ?case by (cases acc) simp
next
  case (Cons x schema)
  obtain p rules where x: "x = (p, rules)" by (cases x)
  obtain V a where acc: "acc = (V, a)" by (cases acc)
  obtain res w1 where inner: "validate_rules rules target p (get target p) (V, a, True) w = (res, w1)"
    by (cases "validate_rules rules target p (get target p) (V, a, True) w")
  from Cons.prems(1) obtain V1 a1 ap where res: "res = Inr (V1, a1, ap)"
    by (cases res) (auto simp: x acc inner)
  let ?V2 = "AList.update p (Flags (AList.update ''isValid'' ap (spread (map_of V1 p)))) V1"
  from Cons.prems(1)
  have run: "validate_properties schema target (?V2, a1) w1 = (Inr acc', w')"
    by (simp add: x acc inner res)
  from Cons.prems(2) have qp: "q \<noteq> p" and q: "q \<notin> fst ` set schema" by (auto simp: x)
  from Cons.IH [OF run q] have "map_of (fst acc') q = map_of ?V2 q" by simp
  also have "\<dots> = map_of V1 q" using qp by (simp add: update_conv')
  also have "\<dots> = map_of V q"
    using validate_rules_frame [OF inner [unfolded res] qp] by simp
  finally show ?case by (simp add: acc)
qed

lemma validate_properties_flags:
  assumes "validate_properties schema target (V, a) w = (Inr (V', a'), w')"
    and "distinct (map fst schema)"
    and "\<forall>(p, rules) \<in> set schema. distinct (map fst rules)"
    and "\<forall>p \<in> fst ` set schema. \<exists>g. map_of V p = Some (Flags g)"
  shows "(\<forall>(p, rules) \<in> set schema.
            outcome V' p ''isValid'' = Some (\<forall>(r, rule) \<in> set rules. outcome V' p r = Some True) \<and>
            (\<forall>(r, rule) \<in> set rules. \<exists>b. outcome V' p r = Some b \<and>
               (r \<noteq> ''isValid'' \<longrightarrow>
                  (\<exists>w0 w1. rule target p (get target p) w0 = (Inr b, w1))))) \<and>
         a' = (a \<and> (\<forall>(p, rules) \<in> set schema. outcome V' p ''isValid'' = Some True))"
  using assms
proof (induction schema arbitrary: V a w)
  case Nil
  then show ?case by simp
next
  case (Cons x schema)
  obtain p rules where x: "x = (p, rules)" by (cases x)
  obtain res w1 where inner: "validate_rules rules target p (get target p) (V, a, True) w = (res, w1)"
    by (cases "validate_rules rules target p (get target p) (V, a, True) w")
  from Cons.prems(1) obtain V1 a1 ap where res: "res = Inr (V1, a1, ap)"
    by (cases res) (auto simp: x inner)
  note inner = inner [unfolded res]
  from Cons.prems(4) obtain g where g: "map_of V p = Some (Flags g)" by (auto simp: x)
  from Cons.prems(3) have dr: "distinct (map fst rules)" by (simp add: x)
  from validate_rules_flags [OF inner dr g] obtain g1 where
      V1: "map_of V1 p = Some (Flags g1)"
    and outs: "\<forall>(r, rule) \<in> set rules. \<exists>b w0 w1.
               rule target p (get target p) w0 = (Inr b, w1) \<and> map_of g1 r = Some b"
    and a1: "a1 = (a \<and> (\<forall>(r, rule) \<in> set rules. map_of g1 r = Some True))"
    and ap: "ap = (\<forall>(r, rule) \<in> set rules. map_of g1 r = Some True)"
    by auto
  let ?g2 = "AList.update ''isValid'' ap g1"
  let ?V2 = "AList.update p (Flags ?g2) V1"
  from Cons.prems(1)
  have run: "validate_properties schema target (?V2, a1) w1 = (Inr (V', a'), w')"
    by (simp add: x inner V1)
  have ds: "distinct (map fst schema)" and fresh: "p \<notin> fst ` set schema"
    using Cons.prems(2) by (auto simp: x)
  have drs: "\<forall>(p, rules) \<in> set schema. distinct (map fst rules)"
    using Cons.prems(3) by simp
  have groups: "\<forall>q \<in> fst ` set schema. \<exists>g. map_of ?V2 q = Some (Flags g)"
  proof
    fix q assume q: "q \<in> fst ` set schema"
    with fresh have qp: "q \<noteq> p" by auto
    from Cons.prems(4) q obtain h where "map_of V q = Some (Flags h)" by auto
    with validate_rules_frame [OF inner qp] qp
    show "\<exists>g. map_of ?V2 q = Some (Flags g)" by (simp add: update_conv')
  qed
  note IH = Cons.IH [OF run ds drs groups]
  from validate_properties_frame [OF run fresh]
  have V'p: "map_of V' p = Some (Flags ?g2)" by (simp add: update_conv')
  have agg: "outcome V' p ''isValid'' = Some ap"
    by (simp add: outcome_def V'p update_conv')
  have each: "\<And>r. outcome V' p r = (if r = ''isValid'' then Some ap else map_of g1 r)"
    by (simp add: outcome_def V'p update_conv')
  have all: "(\<forall>(r, rule) \<in> set rules. outcome V' p r = Some True) = ap"
  proof (cases ap)
    case True
    then have "\<forall>(r, rule) \<in> set rules. map_of g1 r = Some True" using ap by simp
    then show ?thesis using True by (auto simp: each)
  next
    case False
    then obtain r rule where mem: "(r, rule) \<in> set rules" and "map_of g1 r \<noteq> Some True"
      using ap by auto
    then have "outcome V' p r \<noteq> Some True" using False by (simp add: each)
    then show ?thesis using False mem by auto
  qed
  have recorded: "\<forall>(r, rule) \<in> set rules. \<exists>b. outcome V' p r = Some b \<and>
               (r \<noteq> ''isValid'' \<longrightarrow> (\<exists>w0 w1. rule target p (get target p) w0 = (Inr b, w1)))"
    unfolding each using outs by fastforce
  have "a' = (a \<and> (\<forall>(p, rules) \<in> set (x # schema). outcome V' p ''isValid'' = Some True))"
    using IH a1 ap agg by (auto simp: x)
  moreover have "\<forall>(p, rules) \<in> set (x # schema).
            outcome V' p ''isValid'' = Some (\<forall>(r, rule) \<in> set rules. outcome V' p r = Some True) \<and>
            (\<forall>(r, rule) \<in> set rules. \<exists>b. outcome V' p r = Some b \<and>
               (r \<noteq> ''isValid'' \<longrightarrow>
                  (\<exists>w0 w1. rule target p (get target p) w0 = (Inr b, w1))))"
    using IH agg all recorded by (simp add: x)
  ultimately show ?case by blast
qed

section \<open>Rules that resolve, rules that do not look at the state\<close>

lemma validate_rules_resolves:
  assumes "\<forall>(r, rule) \<in> set rules. \<forall>w. \<exists>b w'. rule target property value w = (Inr b, w')"
  shows "\<exists>acc' w'. validate_rules rules target property value acc w = (Inr acc', w')"
  using assms
proof (induction rules arbitrary: acc w)
  case Nil
  then show ?case by (cases acc) simp
next
  case (Cons x rules)
  obtain r0 f0 where x: "x = (r0, f0)" by (cases x)
  obtain V a ap where acc: "acc = (V, a, ap)" by (cases acc)
  from Cons.prems obtain b w1 where call: "f0 target property value w = (Inr b, w1)"
    by (fastforce simp: x)
  from Cons.prems
  have "\<forall>(r, rule) \<in> set rules. \<forall>w. \<exists>b w'. rule target property value w = (Inr b, w')"
    by simp
  from Cons.IH [OF this] show ?case
    by (cases b) (simp_all add: x acc call)
qed

lemma validate_properties_resolves:
  assumes "\<forall>(p, rules) \<in> set schema. \<forall>(r, rule) \<in> set rules.
             \<forall>w. \<exists>b w'. rule target p (get target p) w = (Inr b, w')"
  shows "\<exists>acc' w'. validate_properties schema target acc w = (Inr acc', w')"
  using assms
proof (induction schema arbitrary: acc w)
  case Nil
  then show ?case by (cases acc) simp
next
  case (Cons x schema)
  obtain p0 rules0 where x: "x = (p0, rules0)" by (cases x)
  obtain V a where acc: "acc = (V, a)" by (cases acc)
  from Cons.prems
  have "\<forall>(r, rule) \<in> set rules0. \<forall>w. \<exists>b w'. rule target p0 (get target p0) w = (Inr b, w')"
    by (simp add: x)
  from validate_rules_resolves [OF this, of "(V, a, True)" w]
  obtain V1 a1 ap w1 where
    inner: "validate_rules rules0 target p0 (get target p0) (V, a, True) w = (Inr (V1, a1, ap), w1)"
    by (metis prod_cases3)
  from Cons.prems
  have "\<forall>(p, rules) \<in> set schema. \<forall>(r, rule) \<in> set rules.
             \<forall>w. \<exists>b w'. rule target p (get target p) w = (Inr b, w')"
    by simp
  from Cons.IH [OF this] show ?case
    by (simp add: x acc inner)
qed



section \<open>Evaluating the patterns\<close>

lemma rems_Repeat_numeral:
  "rems (Repeat (numeral k) a) x = concat (map (rems (Repeat (pred_numeral k) a)) (rems a x))"
  by (simp add: numeral_eq_Suc)

lemmas regex_eval = test_def utf16_def in_ranges_def line_terminator_def rems_Repeat_numeral
  atom_def quoted_def bracketed_def word_char_def

lemma email_accepted: "test email_regex (utf16 ''email@domain.com'')"
  by (simp add: regex_eval email_regex_def)

lemma email_refused: "\<not> test email_regex (utf16 ''email@domain'')"
  by (simp add: regex_eval email_regex_def)

lemma password_short: "\<not> test password_regex (utf16 ''Aa1!'')"
  by (simp add: regex_eval password_regex_def)

lemma password_eight: "test password_regex (utf16 ''Aa1!aaaa'')"
  by (simp add: regex_eval password_regex_def)

section \<open>The report of validate\<close>

text \<open>
  What \<open>validate\<close> returns, for a schema with unique keys: the report the loops built, with
  the top-level flag stored last under \<^verbatim>\<open>isValid\<close>.
\<close>

lemma validate_report:
  assumes run: "validate schema target w = (Inr report, w')"
    and unique: "unique_keys schema"
  shows "\<exists>V a. report = AList.update ''isValid'' (Flag a) V \<and>
           (\<forall>(p, rules) \<in> set schema.
              outcome V p ''isValid'' = Some (\<forall>(r, rule) \<in> set rules. outcome V p r = Some True) \<and>
              (\<forall>(r, rule) \<in> set rules. \<exists>b. outcome V p r = Some b \<and>
                 (r \<noteq> ''isValid'' \<longrightarrow>
                    (\<exists>w0 w1. rule target p (get target p) w0 = (Inr b, w1))))) \<and>
           a = (\<forall>(p, rules) \<in> set schema. outcome V p ''isValid'' = Some True)"
proof -
  let ?entries = "map (\<lambda>(property, rules).
          (property,
           Flags (AList.update ''isValid'' False
             (fromEntries (map (\<lambda>(ruleName, rule). (ruleName, False)) rules)))))
          schema"
  let ?V0 = "fromEntries ?entries"
  obtain res w1 where loop: "validate_properties schema target (?V0, True) w = (res, w1)"
    by (cases "validate_properties schema target (?V0, True) w")
  from run obtain V a where res: "res = Inr (V, a)"
    and report: "report = AList.update ''isValid'' (Flag a) V"
    by (cases res) (auto simp: validate_def loop)
  have keys: "map fst ?entries = map fst schema"
    by (induction schema) auto
  from unique have d: "distinct (map fst schema)"
    and dr: "\<forall>(p, rules) \<in> set schema. distinct (map fst rules)"
    by (simp_all add: unique_keys_def)
  from d have "distinct (map fst ?entries)" by (simp only: keys)
  then have V0: "?V0 = ?entries"
    by (rule fromEntries_distinct)
  have groups: "\<forall>p \<in> fst ` set schema. \<exists>g. map_of ?V0 p = Some (Flags g)"
    unfolding V0 by (induction schema) auto
  from validate_properties_flags [OF loop [unfolded res] d dr groups] report
  show ?thesis by (intro exI [of _ V] exI [of _ a]) simp
qed

lemma outcome_update_isValid:
  "p \<noteq> ''isValid'' \<Longrightarrow> outcome (AList.update ''isValid'' (Flag a) V) p k = outcome V p k"
  by (simp add: outcome_def update_conv')

lemma isValid_of_update: "isValid_of (AList.update ''isValid'' (Flag a) V) = Some a"
  by (simp add: isValid_of_def update_conv')

lemma validate_resolves:
  assumes "\<forall>(p, rules) \<in> set schema. \<forall>(r, rule) \<in> set rules.
             \<forall>w. \<exists>b w'. rule target p (get target p) w = (Inr b, w')"
  shows "\<exists>report w'. validate schema target w = (Inr report, w')"
proof -
  let ?V0 = "fromEntries (map (\<lambda>(property, rules).
          (property,
           Flags (AList.update ''isValid'' False
             (fromEntries (map (\<lambda>(ruleName, rule). (ruleName, False)) rules)))))
          schema)"
  from validate_properties_resolves [OF assms, of "(?V0, True)" w]
  obtain acc' w' where "validate_properties schema target (?V0, True) w = (Inr acc', w')"
    by (elim exE) (rule that)
  then show ?thesis
    by (cases acc') (simp add: validate_def)
qed

section \<open>What the password pattern accepts\<close>

text \<open>
  A run of dots from a position ends at any position up to the first line terminator, so
  the four lookaheads ask for a digit, a lower case letter, an upper case letter and a
  symbol before the first line terminator, and \<^verbatim>\<open>.{8,}$\<close> asks for at least eight code units
  and no line terminator at all.
\<close>

lemma dot_run_simps:
  "dot_run [] = 0"
  "dot_run (c # cs) = (if line_terminator c then 0 else Suc (dot_run cs))"
  by (simp_all add: dot_run_def)

lemma dot_run_le: "dot_run s \<le> length s"
  by (simp add: dot_run_def length_takeWhile_le)

lemma dot_run_full: "dot_run s = length s \<longleftrightarrow> (\<forall>c \<in> set s. \<not> line_terminator c)"
  by (induction s) (auto simp: dot_run_simps dest: le_trans [OF _ dot_run_le])

lemma rems_Star_Dot:
  "rems (Star Dot) (i, s) = map (\<lambda>k. (i + k, drop k s)) [0..<Suc (dot_run s)]"
proof (induction s arbitrary: i)
  case Nil
  show ?case by (simp add: dot_run_simps)
next
  case (Cons c cs)
  show ?case
  proof (cases "line_terminator c")
    case True
    then show ?thesis by (simp add: dot_run_simps)
  next
    case False
    have "map (\<lambda>k. (i + k, drop k (c # cs))) [0..<Suc (Suc (dot_run cs))] =
          (i, c # cs) # map (\<lambda>k. (Suc i + k, drop k cs)) [0..<Suc (dot_run cs)]"
      by (subst map_upt_Suc) simp
    with False Cons.IH [of "Suc i"] show ?thesis
      by (simp add: dot_run_simps)
  qed
qed

lemma rems_Repeat_Dot:
  "rems (Repeat n Dot) (i, s) = map (\<lambda>k. (i + k, drop k s)) [n..<Suc (dot_run s)]"
proof (induction n arbitrary: i s)
  case 0
  show ?case by (rule rems_Star_Dot)
next
  case (Suc n)
  show ?case
  proof (cases s)
    case Nil
    then show ?thesis by (simp add: dot_run_simps)
  next
    case (Cons c cs)
    show ?thesis
    proof (cases "line_terminator c")
      case True
      with Cons show ?thesis by (simp add: dot_run_simps)
    next
      case False
      have "map (\<lambda>k. (i + k, drop k (c # cs))) [Suc n..<Suc (Suc (dot_run cs))] =
            map (\<lambda>k. (Suc i + k, drop k cs)) [n..<Suc (dot_run cs)]"
        by (simp only: map_Suc_upt [symmetric] map_map) (simp add: comp_def)
      with False Cons Suc.IH [of "Suc i" cs] show ?thesis
        by (simp add: dot_run_simps)
    qed
  qed
qed

lemma Seq_nonempty: "rems (Seq a b) x \<noteq> [] \<longleftrightarrow> (\<exists>y \<in> set (rems a x). rems b y \<noteq> [])"
  by simp

lemma Chars_nonempty:
  "rems (Chars ranges) (i, s) \<noteq> [] \<longleftrightarrow> (s \<noteq> [] \<and> in_ranges (hd s) ranges)"
  by (cases s) simp_all

lemma NotChars_nonempty:
  "rems (NotChars ranges) (i, s) \<noteq> [] \<longleftrightarrow> (s \<noteq> [] \<and> \<not> in_ranges (hd s) ranges)"
  by (cases s) simp_all

lemma in_rems_Repeat_Dot:
  "y \<in> set (rems (Repeat n Dot) (i, s)) \<longleftrightarrow>
     (\<exists>k. n \<le> k \<and> k \<le> dot_run s \<and> y = (i + k, drop k s))"
proof -
  have "set (rems (Repeat n Dot) (i, s)) = (\<lambda>k. (i + k, drop k s)) ` {k. n \<le> k \<and> k \<le> dot_run s}"
    by (auto simp: rems_Repeat_Dot simp del: rems.simps)
  then show ?thesis by auto
qed

lemma at_Chars:
  "rems (Chars ranges) (i, drop k s) \<noteq> [] \<longleftrightarrow> (k < length s \<and> in_ranges (s ! k) ranges)"
  by (cases "k < length s") (simp_all add: Chars_nonempty hd_drop_conv_nth del: rems.simps)

lemma at_NotChars:
  "rems (NotChars ranges) (i, drop k s) \<noteq> [] \<longleftrightarrow> (k < length s \<and> \<not> in_ranges (s ! k) ranges)"
  by (cases "k < length s") (simp_all add: NotChars_nonempty hd_drop_conv_nth del: rems.simps)

lemma ahead_Chars:
  "rems (Seq (Star Dot) (Chars ranges)) (i, s) \<noteq> [] \<longleftrightarrow>
     (\<exists>k \<le> dot_run s. k < length s \<and> in_ranges (s ! k) ranges)"
proof -
  have "rems (Seq (Star Dot) (Chars ranges)) (i, s) \<noteq> [] \<longleftrightarrow>
        (\<exists>k \<le> dot_run s. rems (Chars ranges) (i + k, drop k s) \<noteq> [])"
    unfolding Seq_nonempty Bex_def in_rems_Repeat_Dot by auto
  then show ?thesis by (simp only: at_Chars)
qed

lemma ahead_NotChars:
  "rems (Seq (Star Dot) (NotChars ranges)) (i, s) \<noteq> [] \<longleftrightarrow>
     (\<exists>k \<le> dot_run s. k < length s \<and> \<not> in_ranges (s ! k) ranges)"
proof -
  have "rems (Seq (Star Dot) (NotChars ranges)) (i, s) \<noteq> [] \<longleftrightarrow>
        (\<exists>k \<le> dot_run s. rems (NotChars ranges) (i + k, drop k s) \<noteq> [])"
    unfolding Seq_nonempty Bex_def in_rems_Repeat_Dot by auto
  then show ?thesis by (simp only: at_NotChars)
qed

lemma at_Eol: "rems Eol (i, drop k s) \<noteq> [] \<longleftrightarrow> length s \<le> k"
  by simp

lemma to_the_end:
  "rems (Seq (Repeat n Dot) Eol) (i, s) \<noteq> [] \<longleftrightarrow> (n \<le> length s \<and> dot_run s = length s)"
proof -
  have "rems (Seq (Repeat n Dot) Eol) (i, s) \<noteq> [] \<longleftrightarrow>
        (\<exists>k. n \<le> k \<and> k \<le> dot_run s \<and> rems Eol (i + k, drop k s) \<noteq> [])"
    unfolding Seq_nonempty Bex_def in_rems_Repeat_Dot by auto
  also have "\<dots> \<longleftrightarrow> (\<exists>k. n \<le> k \<and> k \<le> dot_run s \<and> length s \<le> k)"
    by (simp only: at_Eol)
  also have "\<dots> \<longleftrightarrow> (n \<le> length s \<and> dot_run s = length s)"
  proof
    assume "\<exists>k. n \<le> k \<and> k \<le> dot_run s \<and> length s \<le> k"
    then obtain k where "n \<le> k" "k \<le> dot_run s" "length s \<le> k" by blast
    with dot_run_le [of s] show "n \<le> length s \<and> dot_run s = length s" by simp
  next
    assume "n \<le> length s \<and> dot_run s = length s"
    then have "n \<le> length s \<and> length s \<le> dot_run s \<and> length s \<le> length s" by simp
    then show "\<exists>k. n \<le> k \<and> k \<le> dot_run s \<and> length s \<le> k" by blast
  qed
  finally show ?thesis .
qed

lemma ahead_all:
  assumes "dot_run s = length s"
  shows "(\<exists>k \<le> dot_run s. k < length s \<and> P (s ! k)) \<longleftrightarrow> (\<exists>c \<in> set s. P c)"
proof
  assume "\<exists>k \<le> dot_run s. k < length s \<and> P (s ! k)"
  then obtain k where "k < length s" and "P (s ! k)" by blast
  then show "\<exists>c \<in> set s. P c" using nth_mem by blast
next
  assume "\<exists>c \<in> set s. P c"
  then obtain k where "k < length s" and "P (s ! k)"
    by (auto simp: in_set_conv_nth)
  with assms show "\<exists>k \<le> dot_run s. k < length s \<and> P (s ! k)"
    by (intro exI [of _ k]) simp
qed

lemma Bol_nonempty: "rems (Seq Bol b) (i, t) \<noteq> [] \<longleftrightarrow> (i = 0 \<and> rems b (0, t) \<noteq> [])"
  by simp

lemma Lookahead_nonempty:
  "rems (Seq (Lookahead a) b) x \<noteq> [] \<longleftrightarrow> (rems a x \<noteq> [] \<and> rems b x \<noteq> [])"
  by simp

lemma test_password_regex:
  "test password_regex s \<longleftrightarrow>
     (8 \<le> length s \<and> (\<forall>c \<in> set s. \<not> line_terminator c) \<and>
      (\<exists>c \<in> set s. in_ranges c [(0x30, 0x39)]) \<and>
      (\<exists>c \<in> set s. in_ranges c [(0x61, 0x7a)]) \<and>
      (\<exists>c \<in> set s. in_ranges c [(0x41, 0x5a)]) \<and>
      (\<exists>c \<in> set s. \<not> in_ranges c [(0x30, 0x39), (0x61, 0x7a), (0x41, 0x5a)]))"
proof -
  let ?body = "Seq (Lookahead (Seq (Star Dot) (Chars [(0x30, 0x39)])))
    (Seq (Lookahead (Seq (Star Dot) (Chars [(0x61, 0x7a)])))
    (Seq (Lookahead (Seq (Star Dot) (Chars [(0x41, 0x5a)])))
    (Seq (Lookahead (Seq (Star Dot) (NotChars [(0x30, 0x39), (0x61, 0x7a), (0x41, 0x5a)])))
    (Seq (Repeat 8 Dot)
         Eol))))"
  have "test password_regex s \<longleftrightarrow>
        (\<exists>i \<in> set [0..<Suc (length s)]. i = 0 \<and> rems ?body (0, drop i s) \<noteq> [])"
    unfolding test_def password_regex_def by (simp only: Bol_nonempty)
  also have "\<dots> \<longleftrightarrow> rems ?body (0, s) \<noteq> []"
    by (auto simp del: rems.simps)
  also have "\<dots> \<longleftrightarrow>
     ((\<exists>k \<le> dot_run s. k < length s \<and> in_ranges (s ! k) [(0x30, 0x39)]) \<and>
      (\<exists>k \<le> dot_run s. k < length s \<and> in_ranges (s ! k) [(0x61, 0x7a)]) \<and>
      (\<exists>k \<le> dot_run s. k < length s \<and> in_ranges (s ! k) [(0x41, 0x5a)]) \<and>
      (\<exists>k \<le> dot_run s. k < length s \<and> \<not> in_ranges (s ! k) [(0x30, 0x39), (0x61, 0x7a), (0x41, 0x5a)]) \<and>
      8 \<le> length s \<and> dot_run s = length s)"
    by (simp only: Lookahead_nonempty ahead_Chars ahead_NotChars to_the_end)
  also have "\<dots> \<longleftrightarrow>
     (8 \<le> length s \<and> (\<forall>c \<in> set s. \<not> line_terminator c) \<and>
      (\<exists>c \<in> set s. in_ranges c [(0x30, 0x39)]) \<and>
      (\<exists>c \<in> set s. in_ranges c [(0x61, 0x7a)]) \<and>
      (\<exists>c \<in> set s. in_ranges c [(0x41, 0x5a)]) \<and>
      (\<exists>c \<in> set s. \<not> in_ranges c [(0x30, 0x39), (0x61, 0x7a), (0x41, 0x5a)]))"
  proof (cases "dot_run s = length s")
    case True
    from True have free: "\<forall>c \<in> set s. \<not> line_terminator c"
      by (simp add: dot_run_full)
    show ?thesis
      unfolding ahead_all [OF True, of "\<lambda>c. in_ranges c [(0x30, 0x39)]"]
        ahead_all [OF True, of "\<lambda>c. in_ranges c [(0x61, 0x7a)]"]
        ahead_all [OF True, of "\<lambda>c. in_ranges c [(0x41, 0x5a)]"]
        ahead_all [OF True, of "\<lambda>c. \<not> in_ranges c [(0x30, 0x39), (0x61, 0x7a), (0x41, 0x5a)]"]
      using True free by blast
  next
    case False
    then have "\<not> (\<forall>c \<in> set s. \<not> line_terminator c)"
      by (simp add: dot_run_full)
    with False show ?thesis by blast
  qed
  finally show ?thesis .
qed

lemma isPassword_accepts:
  "isPassword minimum target property (String s) w =
     (Inr (strong_password 8 s \<and> \<not> (\<exists>c \<in> set s. line_terminator c)), w)"
  by (auto simp: isPassword_def test_password_regex strong_password_def in_ranges_def)

lemma password_line_terminator: "\<not> test password_regex (utf16 ''Aa1!aaaa'' @ [0x0A])"
  by (simp add: regex_eval password_regex_def)

section \<open>The initial report\<close>

text \<open>
  Under a property, \<open>initialValidation\<close> holds the rule names and nothing else.
\<close>

lemma initialValidation_property:
  assumes "unique_keys schema" and "(p, rules) \<in> set schema" and "p \<noteq> ''isValid''"
  shows "map_of (initialValidation schema) p =
           Some (Flags (map (\<lambda>(ruleName, rule). (ruleName, False)) rules))"
proof -
  let ?seed = "\<lambda>(property, rules).
     (property, Flags (fromEntries (map (\<lambda>(ruleName, rule). (ruleName, False)) rules)))"
  from assms(1) have d: "distinct (map fst schema)"
    and dr: "distinct (map fst rules)"
    using assms(2) by (auto simp: unique_keys_def)
  have keys: "map fst (map ?seed schema) = map fst schema"
    by (induction schema) auto
  from d have ds: "distinct (map fst (map ?seed schema))"
    by (simp only: keys)
  have names: "map fst (map (\<lambda>(ruleName, rule). (ruleName, False)) rules) = map fst rules"
    by (induction rules) auto
  from dr have "distinct (map fst (map (\<lambda>(ruleName, rule). (ruleName, False)) rules))"
    by (simp only: names)
  then have inner: "fromEntries (map (\<lambda>(ruleName, rule). (ruleName, False)) rules) =
      map (\<lambda>(ruleName, rule). (ruleName, False)) rules"
    by (rule fromEntries_distinct)
  from assms(2) have "?seed (p, rules) \<in> ?seed ` set schema"
    by (rule imageI)
  then have "(p, Flags (map (\<lambda>(ruleName, rule). (ruleName, False)) rules)) \<in> set (map ?seed schema)"
    by (simp only: set_map prod.case inner)
  with ds have "map_of (map ?seed schema) p =
      Some (Flags (map (\<lambda>(ruleName, rule). (ruleName, False)) rules))"
    by (rule map_of_is_SomeI)
  with assms(3) show ?thesis
    by (simp add: initialValidation_def fromEntries_distinct [OF ds] update_conv')
qed

lemma initialValidation_no_property_isValid:
  assumes "unique_keys schema" and "(p, rules) \<in> set schema" and "p \<noteq> ''isValid''"
    and "''isValid'' \<notin> fst ` set rules"
  shows "outcome (initialValidation schema) p ''isValid'' = None"
proof -
  have "map_of (map (\<lambda>(ruleName, rule). (ruleName, False)) rules) ''isValid'' = None"
    using assms(4) by (induction rules) auto
  with initialValidation_property [OF assms(1-3)] show ?thesis
    by (simp add: outcome_def)
qed

section \<open>The run that validate makes\<close>

text \<open>
  Both loops call the rules in the order of \<open>calls\<close>, hand each call the state the call
  before left, and stop at the first rejection with what that call returned.
\<close>

lemma validate_rules_follow:
  "validate_rules rules target property (get target property) acc w = (res, w') \<Longrightarrow>
   follow (map (\<lambda>(ruleName, rule). (property, ruleName, rule)) rules @ rest) target w =
     (case res of Inl rejection \<Rightarrow> (Some rejection, w') | Inr acc' \<Rightarrow> follow rest target w')"
proof (induction rules arbitrary: acc w)
  case Nil
  then show ?case by (cases acc) auto
next
  case (Cons x rules)
  obtain r0 f0 where x: "x = (r0, f0)" by (cases x)
  obtain V a ap where acc: "acc = (V, a, ap)" by (cases acc)
  obtain out w1 where call: "f0 target property (get target property) w = (out, w1)"
    by (cases "f0 target property (get target property) w")
  show ?case
  proof (cases out)
    case (Inl e)
    with Cons.prems call show ?thesis by (auto simp: x acc)
  next
    case (Inr b)
    with Cons.prems call obtain acc1 where
      "validate_rules rules target property (get target property) acc1 w1 = (res, w')"
      by (cases b) (auto simp: x acc)
    from Cons.IH [OF this] show ?thesis by (simp add: x call Inr)
  qed
qed

lemma validate_properties_follow:
  "validate_properties schema target acc w = (res, w') \<Longrightarrow>
   follow (calls schema) target w =
     (case res of Inl rejection \<Rightarrow> (Some rejection, w') | Inr acc' \<Rightarrow> (None, w'))"
proof (induction schema arbitrary: acc w)
  case Nil
  then show ?case by (cases acc) (auto simp: calls_def)
next
  case (Cons x schema)
  obtain p0 rules0 where x: "x = (p0, rules0)" by (cases x)
  obtain V a where acc: "acc = (V, a)" by (cases acc)
  obtain out w1 where
    inner: "validate_rules rules0 target p0 (get target p0) (V, a, True) w = (out, w1)"
    by (cases "validate_rules rules0 target p0 (get target p0) (V, a, True) w")
  have split: "calls (x # schema) =
      map (\<lambda>(ruleName, rule). (p0, ruleName, rule)) rules0 @ calls schema"
    by (simp add: calls_def x)
  note head = validate_rules_follow [OF inner, of "calls schema"]
  show ?case
  proof (cases out)
    case (Inl e)
    with Cons.prems inner have "res = Inl e" "w' = w1" by (auto simp: x acc)
    with head Inl show ?thesis by (simp add: split)
  next
    case (Inr acc1)
    with Cons.prems inner obtain acc2 where
      "validate_properties schema target acc2 w1 = (res, w')"
      by (cases acc1) (auto simp: x acc)
    from Cons.IH [OF this] head Inr show ?thesis by (simp add: split)
  qed
qed

lemma validate_follow:
  "follow (calls schema) target w =
     (case validate schema target w of
        (Inl rejection, w') \<Rightarrow> (Some rejection, w')
      | (Inr report, w') \<Rightarrow> (None, w'))"
proof -
  let ?V0 = "fromEntries (map (\<lambda>(property, rules).
          (property,
           Flags (AList.update ''isValid'' False
             (fromEntries (map (\<lambda>(ruleName, rule). (ruleName, False)) rules)))))
          schema)"
  obtain res w' where loop: "validate_properties schema target (?V0, True) w = (res, w')"
    by (cases "validate_properties schema target (?V0, True) w")
  from validate_properties_follow [OF loop] show ?thesis
    by (cases res) (auto simp: validate_def loop)
qed

lemma follow_rejection:
  "follow cs target w = (Some rejection, w2) \<longleftrightarrow>
     (\<exists>earlier property ruleName rule later w1.
        cs = earlier @ (property, ruleName, rule) # later \<and>
        resolve_all earlier target w = Some w1 \<and>
        rule target property (get target property) w1 = (Inl rejection, w2))"
proof (induction cs arbitrary: w)
  case Nil
  show ?case by simp
next
  case (Cons c cs)
  obtain p r f where c: "c = (p, r, f)" by (cases c)
  obtain out w' where call: "f target p (get target p) w = (out, w')"
    by (cases "f target p (get target p) w")
  show ?case
  proof (cases out)
    case (Inl e)
    show ?thesis
    proof
      assume "follow (c # cs) target w = (Some rejection, w2)"
      with call Inl have "f target p (get target p) w = (Inl rejection, w2)"
        by (simp add: c)
      then have "c # cs = [] @ (p, r, f) # cs \<and> resolve_all [] target w = Some w \<and>
          f target p (get target p) w = (Inl rejection, w2)"
        by (simp add: c)
      then show "\<exists>earlier property ruleName rule later w1.
        c # cs = earlier @ (property, ruleName, rule) # later \<and>
        resolve_all earlier target w = Some w1 \<and>
        rule target property (get target property) w1 = (Inl rejection, w2)"
        by blast
    next
      assume "\<exists>earlier property ruleName rule later w1.
        c # cs = earlier @ (property, ruleName, rule) # later \<and>
        resolve_all earlier target w = Some w1 \<and>
        rule target property (get target property) w1 = (Inl rejection, w2)"
      then obtain earlier property ruleName rule later w1 where
          shape: "c # cs = earlier @ (property, ruleName, rule) # later"
        and before: "resolve_all earlier target w = Some w1"
        and here: "rule target property (get target property) w1 = (Inl rejection, w2)"
        by blast
      have "earlier = []"
      proof (cases earlier)
        case Nil
        then show ?thesis .
      next
        case (Cons c' earlier')
        with shape have "c' = c" by simp
        with before Cons call Inl show ?thesis by (simp add: c)
      qed
      with shape before here call Inl show "follow (c # cs) target w = (Some rejection, w2)"
        by (auto simp: c)
    qed
  next
    case (Inr b)
    have step: "follow (c # cs) target w = follow cs target w'"
      by (simp add: c call Inr)
    show ?thesis
    proof
      assume "follow (c # cs) target w = (Some rejection, w2)"
      with step Cons.IH [of w'] obtain earlier property ruleName rule later w1 where
          shape: "cs = earlier @ (property, ruleName, rule) # later"
        and before: "resolve_all earlier target w' = Some w1"
        and here: "rule target property (get target property) w1 = (Inl rejection, w2)"
        by auto
      have "c # cs = (c # earlier) @ (property, ruleName, rule) # later \<and>
          resolve_all (c # earlier) target w = Some w1 \<and>
          rule target property (get target property) w1 = (Inl rejection, w2)"
        using shape before here by (simp add: c call Inr)
      then show "\<exists>earlier property ruleName rule later w1.
        c # cs = earlier @ (property, ruleName, rule) # later \<and>
        resolve_all earlier target w = Some w1 \<and>
        rule target property (get target property) w1 = (Inl rejection, w2)"
        by blast
    next
      assume "\<exists>earlier property ruleName rule later w1.
        c # cs = earlier @ (property, ruleName, rule) # later \<and>
        resolve_all earlier target w = Some w1 \<and>
        rule target property (get target property) w1 = (Inl rejection, w2)"
      then obtain earlier property ruleName rule later w1 where
          shape: "c # cs = earlier @ (property, ruleName, rule) # later"
        and before: "resolve_all earlier target w = Some w1"
        and here: "rule target property (get target property) w1 = (Inl rejection, w2)"
        by blast
      from shape before here call Inr obtain earlier' where e: "earlier = c # earlier'"
        by (cases earlier) (auto simp: c)
      with shape before have "cs = earlier' @ (property, ruleName, rule) # later"
        and "resolve_all earlier' target w' = Some w1"
        by (simp_all add: c call Inr)
      with here have "follow cs target w' = (Some rejection, w2)"
        unfolding Cons.IH [of w'] by blast
      with step show "follow (c # cs) target w = (Some rejection, w2)" by simp
    qed
  qed
qed

lemma follow_resolved: "follow cs target w = (None, w') \<longleftrightarrow> resolve_all cs target w = Some w'"
proof (induction cs arbitrary: w)
  case Nil
  show ?case by auto
next
  case (Cons c cs)
  obtain p r f where c: "c = (p, r, f)" by (cases c)
  obtain out w1 where call: "f target p (get target p) w = (out, w1)"
    by (cases "f target p (get target p) w")
  show ?case
    using Cons.IH [of w1] by (cases out) (simp_all add: c call)
qed

section \<open>Numbers and lookups\<close>

lemma zero_not_nan: "is_zero x \<Longrightarrow> \<not> is_nan x"
proof
  assume z: "is_zero x" and n: "is_nan x"
  have "x AND 0x7FF0000000000000 = (x AND 0x7FFFFFFFFFFFFFFF) AND 0x7FF0000000000000"
    by (simp add: and.assoc)
  with z have "x AND 0x7FF0000000000000 = 0" by (simp add: is_zero_def)
  with n show False by (simp add: is_nan_def)
qed

lemma reads_get: "reads target name found \<longleftrightarrow> get target name = found"
  by (auto simp: reads_def get_def split: option.splits)

section \<open>The store holds the report\<close>







lemma properties_of_append: "a < length h \<Longrightarrow> properties_of (h @ ext) a = properties_of h a"
  by (simp add: properties_of_def nth_append)













section \<open>The claims\<close>

text \<open>
  C1. The claim: \<^verbatim>\<open>isPassword(m)\<close> accepts a string exactly when it has at least \<open>m\<close> code
  units and a lower case letter, an upper case letter, a digit and a symbol, with \<open>m\<close> a
  parameter that defaults to 8. The code declares the parameter and never reads it: the
  pattern holds the constant 8. So for every minimum the rule accepts the strings of at
  least eight code units that have the four kinds and no line terminator;
  \<^verbatim>\<open>isPassword(4)\<close> refuses \<^verbatim>\<open>"Aa1!"\<close>, which has four code units and all four kinds, and
  \<^verbatim>\<open>isPassword(12)\<close> accepts \<^verbatim>\<open>"Aa1!aaaa"\<close>, which has only eight.
\<close>

theorem isPassword_ignores_minimum:
  "isPassword minimum target property (String s) w =
     (Inr (strong_password 8 s \<and> \<not> (\<exists>c \<in> set s. line_terminator c)), w) \<and>
   isPassword 4 target property (String (utf16 ''Aa1!'')) w = (Inr False, w) \<and>
   strong_password 4 (utf16 ''Aa1!'') \<and>
   isPassword 12 target property (String (utf16 ''Aa1!aaaa'')) w = (Inr True, w) \<and>
   \<not> strong_password 12 (utf16 ''Aa1!aaaa'')"
proof -
  have "isPassword 4 target property (String (utf16 ''Aa1!'')) w = (Inr False, w)"
    by (simp add: isPassword_def password_short)
  moreover have "strong_password 4 (utf16 ''Aa1!'')"
    by (simp add: strong_password_def utf16_def)
  moreover have "isPassword 12 target property (String (utf16 ''Aa1!aaaa'')) w = (Inr True, w)"
    by (simp add: isPassword_def password_eight)
  moreover have "\<not> strong_password 12 (utf16 ''Aa1!aaaa'')"
    by (simp add: strong_password_def utf16_def)
  ultimately show ?thesis using isPassword_accepts [of minimum target property s w] by blast
qed

text \<open>
  C2. The claim: \<open>initialValidation\<close> has the keys of every report of \<open>validate\<close>, the
  \<^verbatim>\<open>isValid\<close> of each property included, all false. The code seeds \<^verbatim>\<open>isValid: false\<close> under
  each property where \<open>validate\<close> builds its first report, and leaves it out where it builds
  \<open>initialValidation\<close>: for the schema of the test file, \<^verbatim>\<open>initialValidation.email\<close> is
  \<^verbatim>\<open>{ isValidEmail: false }\<close> while the report has \<^verbatim>\<open>isValidEmail\<close> and \<^verbatim>\<open>isValid\<close> there.
  (The same holds for every schema, by \<open>initialValidation_no_property_isValid\<close>.)
\<close>

theorem initialValidation_omits_property_isValid:
  "initialValidation (email_schema :: unit schema) =
     [(''email'', Flags [(''isValidEmail'', False)]), (''isValid'', Flag False)] \<and>
   validate email_schema (literal [''email'' \<mapsto> String (utf16 ''email@domain.com'')]) () =
     (Inr [(''email'', Flags [(''isValidEmail'', True), (''isValid'', True)]),
           (''isValid'', Flag True)], ()) \<and>
   outcome (initialValidation (email_schema :: unit schema)) ''email'' ''isValid'' = None"
  by (simp add: initialValidation_def validate_def fromEntries_def email_schema_def isEmail_def
      get_def literal_def object_prototype_def email_accepted outcome_def)

text \<open>
  C3. The claim: in every report of \<open>validate\<close> the top-level \<^verbatim>\<open>isValid\<close> is the conjunction
  of the properties' \<^verbatim>\<open>isValid\<close>, each of which is the conjunction of the booleans the
  report holds for the rules of that property, so that a property with no rule is valid.
  This holds for every schema that has no property named \<^verbatim>\<open>isValid\<close>. The last statement
  of \<open>validate\<close> stores the top-level flag under that key, over whatever a property of that
  name had put there.
\<close>

theorem validate_aggregates:
  assumes "validate schema target w = (Inr report, w')"
    and "unique_keys schema"
    and "''isValid'' \<notin> fst ` set schema"
  shows "aggregated schema report \<and>
         (\<forall>(property, rules) \<in> set schema.
            rules = [] \<longrightarrow> outcome report property ''isValid'' = Some True)"
proof -
  from validate_report [OF assms(1) assms(2)] obtain V a where
      report: "report = AList.update ''isValid'' (Flag a) V"
    and each: "\<forall>(p, rules) \<in> set schema.
              outcome V p ''isValid'' = Some (\<forall>(r, rule) \<in> set rules. outcome V p r = Some True)"
    and a: "a = (\<forall>(p, rules) \<in> set schema. outcome V p ''isValid'' = Some True)"
    by fastforce
  have same: "\<And>p rules k. (p, rules) \<in> set schema \<Longrightarrow> outcome report p k = outcome V p k"
  proof -
    fix p rules k assume "(p, rules) \<in> set schema"
    with assms(3) have "p \<noteq> ''isValid''" by force
    then show "outcome report p k = outcome V p k"
      unfolding report by (rule outcome_update_isValid)
  qed
  have "a = (\<forall>(property, rules) \<in> set schema. outcome report property ''isValid'' = Some True)"
    using same by (auto simp: a)
  moreover have "isValid_of report = Some a"
    by (simp add: report isValid_of_update)
  ultimately have top: "isValid_of report =
        Some (\<forall>(property, rules) \<in> set schema. outcome report property ''isValid'' = Some True)"
    by simp
  have under: "\<forall>(property, rules) \<in> set schema.
         outcome report property ''isValid'' =
           Some (\<forall>(ruleName, rule) \<in> set rules. outcome report property ruleName = Some True)"
    using each same by auto
  from under have "\<forall>(property, rules) \<in> set schema.
            rules = [] \<longrightarrow> outcome report property ''isValid'' = Some True"
    by auto
  with top under show ?thesis by (simp add: aggregated_def)
qed

text \<open>
  The theorem at a schema with a failing rule and a property that has no rule.
\<close>

theorem validate_aggregates_witness:
  "validate [(''email'', [(''isValidEmail'', isEmail)]), (''note'', [])]
     (literal [''email'' \<mapsto> String (utf16 ''email@domain'')]) () =
     (Inr [(''email'', Flags [(''isValidEmail'', False), (''isValid'', False)]),
           (''note'', Flags [(''isValid'', True)]),
           (''isValid'', Flag False)], ()) \<and>
   unique_keys [(''email'', [(''isValidEmail'', isEmail :: unit rule)]), (''note'', [])] \<and>
   ''isValid'' \<notin> fst ` set [(''email'', [(''isValidEmail'', isEmail :: unit rule)]), (''note'', [])] \<and>
   aggregated [(''email'', [(''isValidEmail'', isEmail :: unit rule)]), (''note'', [])]
     [(''email'', Flags [(''isValidEmail'', False), (''isValid'', False)]),
      (''note'', Flags [(''isValid'', True)]),
      (''isValid'', Flag False)] \<and>
   outcome [(''email'', Flags [(''isValidEmail'', False), (''isValid'', False)]),
      (''note'', Flags [(''isValid'', True)]),
      (''isValid'', Flag False)] ''note'' ''isValid'' = Some True"
proof -
  let ?S = "[(''email'', [(''isValidEmail'', isEmail :: unit rule)]), (''note'', [])]"
  let ?T = "literal [''email'' \<mapsto> String (utf16 ''email@domain'')]"
  let ?R = "[(''email'', Flags [(''isValidEmail'', False), (''isValid'', False)]),
      (''note'', Flags [(''isValid'', True)]),
      (''isValid'', Flag False)]"
  have run: "validate ?S ?T () = (Inr ?R, ())"
    by (simp add: validate_def fromEntries_def isEmail_def get_def literal_def object_prototype_def email_refused)
  have unique: "unique_keys ?S"
    by (simp add: unique_keys_def)
  have free: "''isValid'' \<notin> fst ` set ?S"
    by simp
  from validate_aggregates [OF run unique free] run unique free
  show ?thesis by (simp add: outcome_def)
qed

text \<open>
  With a property named \<^verbatim>\<open>isValid\<close> the report is \<^verbatim>\<open>{ isValid: true }\<close>: the top-level flag is
  true, and \<^verbatim>\<open>report.isValid.isValid\<close>, which the conjunction over the properties reads, is
  not there.
\<close>

theorem validate_aggregates_counterexample:
  "validate [(''isValid'', [(''isChecked'', isNumber)])] (literal [''isValid'' \<mapsto> Number forty_two]) () =
     (Inr [(''isValid'', Flag True)], ()) \<and>
   unique_keys [(''isValid'', [(''isChecked'', isNumber :: unit rule)])] \<and>
   \<not> aggregated [(''isValid'', [(''isChecked'', isNumber :: unit rule)])] [(''isValid'', Flag True)]"
  by (simp add: validate_def fromEntries_def isNumber_def get_def literal_def object_prototype_def unique_keys_def aggregated_def
      isValid_of_def outcome_def)

text \<open>
  C4. \<open>validate\<close> rejects exactly when a rule call of the pass rejects: the calls before it
  have resolved, each from the state its predecessor left, and this one rejects in the
  state it is called in. The rejection and the state that \<open>validate\<close> returns are then those
  of that call, and there is no report; nothing is caught or replaced on the way. A report
  is returned exactly when every call of the pass resolves.
\<close>

theorem validate_propagates_rejection:
  "(validate schema target w = (Inl rejection, w2) \<longleftrightarrow>
      (\<exists>earlier property ruleName rule later w1.
         calls schema = earlier @ (property, ruleName, rule) # later \<and>
         resolve_all earlier target w = Some w1 \<and>
         rule target property (get target property) w1 = (Inl rejection, w2))) \<and>
   ((\<exists>report. validate schema target w = (Inr report, w')) \<longleftrightarrow>
      resolve_all (calls schema) target w = Some w')"
proof -
  obtain res w0 where run: "validate schema target w = (res, w0)"
    by (cases "validate schema target w")
  have "validate schema target w = (Inl rejection, w2) \<longleftrightarrow>
        follow (calls schema) target w = (Some rejection, w2)"
    by (cases res) (auto simp: validate_follow run)
  moreover have "(\<exists>report. validate schema target w = (Inr report, w')) \<longleftrightarrow>
        follow (calls schema) target w = (None, w')"
    by (cases res) (auto simp: validate_follow run)
  ultimately show ?thesis
    by (simp only: follow_rejection follow_resolved)
qed

text \<open>
  The theorem at a rule that rejects only in the outside state 0, after a rule that counts
  that state down: from state 1 the pass is rejected, from state 2 it returns a report.
\<close>

theorem validate_propagates_rejection_witness:
  "calls [(''email'', [(''ping'', \<lambda>target property value w. (Inr True, w - 1)),
                       (''isUnique'', \<lambda>target property value w.
                          if w = (0 :: nat) then (Inl (String (utf16 ''offline'')), w)
                          else (Inr True, w))])] =
     [(''email'', ''ping'', \<lambda>target property value w. (Inr True, w - 1))] @
     (''email'', ''isUnique'', \<lambda>target property value w.
        if w = 0 then (Inl (String (utf16 ''offline'')), w) else (Inr True, w)) # [] \<and>
   resolve_all [(''email'', ''ping'', \<lambda>target property value w. (Inr True, w - 1))]
     (literal [''email'' \<mapsto> String (utf16 ''email@domain.com'')]) (1 :: nat) = Some 0 \<and>
   validate [(''email'', [(''ping'', \<lambda>target property value w. (Inr True, w - 1)),
                          (''isUnique'', \<lambda>target property value w.
                             if w = (0 :: nat) then (Inl (String (utf16 ''offline'')), w)
                             else (Inr True, w))])]
     (literal [''email'' \<mapsto> String (utf16 ''email@domain.com'')]) 1 =
     (Inl (String (utf16 ''offline'')), 0) \<and>
   validate [(''email'', [(''ping'', \<lambda>target property value w. (Inr True, w - 1)),
                          (''isUnique'', \<lambda>target property value w.
                             if w = (0 :: nat) then (Inl (String (utf16 ''offline'')), w)
                             else (Inr True, w))])]
     (literal [''email'' \<mapsto> String (utf16 ''email@domain.com'')]) 2 =
     (Inr [(''email'', Flags [(''ping'', True), (''isUnique'', True), (''isValid'', True)]),
           (''isValid'', Flag True)], 1)"
proof -
  let ?ping = "\<lambda>(target :: schemaTarget) (property :: string) (value :: jsvalue) (w :: nat).
     (Inr True :: reason + bool, w - 1)"
  let ?isUnique = "\<lambda>(target :: schemaTarget) (property :: string) (value :: jsvalue) (w :: nat).
     if w = 0 then (Inl (String (utf16 ''offline'')) :: reason + bool, w) else (Inr True, w)"
  let ?S = "[(''email'', [(''ping'', ?ping), (''isUnique'', ?isUnique)])]"
  let ?T = "literal [''email'' \<mapsto> String (utf16 ''email@domain.com'')]"
  have shape: "calls ?S = [(''email'', ''ping'', ?ping)] @ (''email'', ''isUnique'', ?isUnique) # []"
    by (simp add: calls_def)
  have before: "resolve_all [(''email'', ''ping'', ?ping)] ?T 1 = Some 0"
    by simp
  have here: "?isUnique ?T ''email'' (get ?T ''email'') 0 = (Inl (String (utf16 ''offline'')), 0)"
    by simp
  from shape before here
  have "\<exists>earlier property ruleName rule later w1.
         calls ?S = earlier @ (property, ruleName, rule) # later \<and>
         resolve_all earlier ?T 1 = Some w1 \<and>
         rule ?T property (get ?T property) w1 = (Inl (String (utf16 ''offline'')), 0)"
    by blast
  with validate_propagates_rejection [of ?S ?T 1 "String (utf16 ''offline'')" 0]
  have rejected: "validate ?S ?T 1 = (Inl (String (utf16 ''offline'')), 0)"
    by blast
  have resolved: "validate ?S ?T 2 =
     (Inr [(''email'', Flags [(''ping'', True), (''isUnique'', True), (''isValid'', True)]),
           (''isValid'', Flag True)], 1)"
    by (simp add: validate_def fromEntries_def)
  from shape before rejected resolved show ?thesis by simp
qed

text \<open>
  C5. The claim: when all rules resolve, \<open>validate\<close> returns a report even if the target lacks
  a property of the schema; the property is in the report with a boolean for each of its
  rules, and the absent value is passed to each rule. This holds for every property not
  named \<^verbatim>\<open>isValid\<close>, with the value that \<^verbatim>\<open>target[property]\<close> reads: what the target inherits
  under that name, and \<^verbatim>\<open>undefined\<close> when it inherits nothing. (Under the key \<^verbatim>\<open>isValid\<close> of
  a property the report holds the property's own flag, so for a rule of that name the
  boolean is the flag.)
\<close>

theorem validate_absent_property:
  assumes "unique_keys schema"
    and "\<forall>(p, rules) \<in> set schema. \<forall>(r, rule) \<in> set rules.
           \<forall>w. \<exists>b w'. rule target p (get target p) w = (Inr b, w')"
    and "(property, rules) \<in> set schema"
    and "own target property = None"
    and "property \<noteq> ''isValid''"
  shows "\<exists>report w'. validate schema target w = (Inr report, w') \<and>
           (\<exists>flags. map_of report property = Some (Flags flags)) \<and>
           (\<forall>(ruleName, rule) \<in> set rules. \<exists>b.
              outcome report property ruleName = Some b \<and>
              (ruleName \<noteq> ''isValid'' \<longrightarrow>
                 (\<exists>w0 w1. rule target property
                    (case inherited target property of None \<Rightarrow> Undefined | Some value \<Rightarrow> value) w0 =
                    (Inr b, w1))))"
proof -
  from validate_resolves [OF assms(2), of w] obtain report w' where
    run: "validate schema target w = (Inr report, w')"
    by (elim exE) (rule that)
  from validate_report [OF run assms(1)] obtain V a where
      report: "report = AList.update ''isValid'' (Flag a) V"
    and each: "\<forall>(p, rules) \<in> set schema.
              outcome V p ''isValid'' = Some (\<forall>(r, rule) \<in> set rules. outcome V p r = Some True) \<and>
              (\<forall>(r, rule) \<in> set rules. \<exists>b. outcome V p r = Some b \<and>
                 (r \<noteq> ''isValid'' \<longrightarrow>
                    (\<exists>w0 w1. rule target p (get target p) w0 = (Inr b, w1))))"
    by (elim exE conjE) (rule that)
  have absent: "get target property =
      (case inherited target property of None \<Rightarrow> Undefined | Some value \<Rightarrow> value)"
    using assms(4) by (simp add: get_def)
  have same: "\<And>k. outcome report property k = outcome V property k"
    unfolding report using assms(5) by (rule outcome_update_isValid)
  from bspec [OF each assms(3)]
  have here: "outcome V property ''isValid'' =
                Some (\<forall>(r, rule) \<in> set rules. outcome V property r = Some True)"
    and recorded: "\<forall>(r, rule) \<in> set rules. \<exists>b. outcome V property r = Some b \<and>
                 (r \<noteq> ''isValid'' \<longrightarrow>
                    (\<exists>w0 w1. rule target property (get target property) w0 = (Inr b, w1)))"
    by simp_all
  from here obtain flags where "map_of V property = Some (Flags flags)"
    by (cases "map_of V property") (auto simp: outcome_def split: validation.splits)
  with assms(5) have appears: "\<exists>flags. map_of report property = Some (Flags flags)"
    by (simp add: report update_conv')
  from run appears recorded [unfolded absent]
  have "validate schema target w = (Inr report, w') \<and>
           (\<exists>flags. map_of report property = Some (Flags flags)) \<and>
           (\<forall>(ruleName, rule) \<in> set rules. \<exists>b.
              outcome report property ruleName = Some b \<and>
              (ruleName \<noteq> ''isValid'' \<longrightarrow>
                 (\<exists>w0 w1. rule target property
                    (case inherited target property of None \<Rightarrow> Undefined | Some value \<Rightarrow> value) w0 =
                    (Inr b, w1))))"
    by (simp add: same)
  then show ?thesis
    by (intro exI [of _ report] exI [of _ w'])
qed

text \<open>
  The theorem at \<^verbatim>\<open>{}\<close>, for a rule that passes on \<^verbatim>\<open>undefined\<close> only: it passes for
  \<^verbatim>\<open>email\<close>, and fails for \<^verbatim>\<open>toString\<close>, where the target inherits a function.
\<close>

theorem validate_absent_property_witness:
  "unique_keys [(''email'', [(''isAbsent'', \<lambda>target property value w. (Inr (value = Undefined), w :: unit))]),
                (''toString'', [(''isAbsent'', \<lambda>target property value w. (Inr (value = Undefined), w))])] \<and>
   own (literal Map.empty) ''email'' = None \<and>
   inherited (literal Map.empty) ''email'' = None \<and>
   own (literal Map.empty) ''toString'' = None \<and>
   inherited (literal Map.empty) ''toString'' = Some (Function 8) \<and>
   validate [(''email'', [(''isAbsent'', \<lambda>target property value w. (Inr (value = Undefined), w))]),
             (''toString'', [(''isAbsent'', \<lambda>target property value w. (Inr (value = Undefined), w))])]
     (literal Map.empty) () =
     (Inr [(''email'', Flags [(''isAbsent'', True), (''isValid'', True)]),
           (''toString'', Flags [(''isAbsent'', False), (''isValid'', False)]),
           (''isValid'', Flag False)], ())"
proof -
  let ?isAbsent = "\<lambda>(target :: schemaTarget) (property :: string) (value :: jsvalue) (w :: unit).
     (Inr (value = Undefined) :: reason + bool, w)"
  let ?rules = "[(''isAbsent'', ?isAbsent)]"
  let ?S = "[(''email'', ?rules), (''toString'', ?rules)]"
  let ?T = "literal Map.empty"
  have unique: "unique_keys ?S"
    by (simp add: unique_keys_def)
  have resolve: "\<forall>(p, rules) \<in> set ?S. \<forall>(r, rule) \<in> set rules.
           \<forall>w. \<exists>b w'. rule ?T p (get ?T p) w = (Inr b, w')"
    by simp
  have email: "(''email'', ?rules) \<in> set ?S" and toString: "(''toString'', ?rules) \<in> set ?S"
    by simp_all
  have absent: "own ?T ''email'' = None" "own ?T ''toString'' = None"
    by (simp_all add: literal_def)
  have above: "inherited ?T ''email'' = None" "inherited ?T ''toString'' = Some (Function 8)"
    by (simp_all add: literal_def object_prototype_def)
  have names: "''email'' \<noteq> ''isValid''" "''toString'' \<noteq> ''isValid''" by simp_all
  have run: "validate ?S ?T () =
     (Inr [(''email'', Flags [(''isAbsent'', True), (''isValid'', True)]),
           (''toString'', Flags [(''isAbsent'', False), (''isValid'', False)]),
           (''isValid'', Flag False)], ())"
    by (simp add: validate_def fromEntries_def get_def literal_def object_prototype_def)
  from validate_absent_property [OF unique resolve email absent(1) names(1), where w = "()"]
    validate_absent_property [OF unique resolve toString absent(2) names(2), where w = "()"]
    unique absent above run
  show ?thesis by simp
qed

text \<open>
  Two properties absent from \<^verbatim>\<open>{}\<close>. For one named \<^verbatim>\<open>isValid\<close> the report holds the top-level
  flag under that key and no boolean for the property's rule. For \<^verbatim>\<open>toString\<close> the rule is
  handed the inherited function and not \<^verbatim>\<open>undefined\<close>.
\<close>

theorem validate_absent_property_counterexample:
  "own (literal Map.empty) ''isValid'' = None \<and>
   validate [(''isValid'', [(''isChecked'', isNumber)])] (literal Map.empty) () =
     (Inr [(''isValid'', Flag False)], ()) \<and>
   map_of [(''isValid'', Flag False)] ''isValid'' = Some (Flag False) \<and>
   outcome [(''isValid'', Flag False)] ''isValid'' ''isChecked'' = None \<and>
   own (literal Map.empty) ''toString'' = None \<and>
   validate [(''toString'', [(''isAbsent'', \<lambda>target property value w. (Inr (value = Undefined), w))])]
     (literal Map.empty) () =
     (Inr [(''toString'', Flags [(''isAbsent'', False), (''isValid'', False)]),
           (''isValid'', Flag False)], ())"
  by (simp add: validate_def fromEntries_def isNumber_def get_def outcome_def literal_def
      object_prototype_def)



text \<open>
  C7. \<^verbatim>\<open>isNumberEqualTo(n)\<close> resolves to false on every value that is not a number, to true
  on \<open>n\<close> itself unless \<open>n\<close> is NaN, and to false on every other number, the two zeros apart,
  which equal each other. So 43 is refused where 42 is expected, NaN is refused even where
  NaN is expected, and with the schema of the test file the number 42 gives an all-true
  report while the string \<^verbatim>\<open>"42"\<close> and the number 43 give \<^verbatim>\<open>isValidAnswer\<close> false.
\<close>

theorem isNumberEqualTo_numeric:
  "((\<forall>x. value \<noteq> Number x) \<longrightarrow>
      isNumberEqualTo n target property value w = (Inr False, w)) \<and>
   (\<not> is_nan n \<longrightarrow> isNumberEqualTo n target property (Number n) w = (Inr True, w)) \<and>
   (is_zero x \<and> is_zero n \<longrightarrow> isNumberEqualTo n target property (Number x) w = (Inr True, w)) \<and>
   (x \<noteq> n \<and> \<not> (is_zero x \<and> is_zero n) \<longrightarrow>
      isNumberEqualTo n target property (Number x) w = (Inr False, w)) \<and>
   (is_nan n \<or> is_nan x \<longrightarrow> isNumberEqualTo n target property (Number x) w = (Inr False, w)) \<and>
   isNumberEqualTo forty_two target property (Number forty_three) w = (Inr False, w) \<and>
   isNumberEqualTo not_a_number target property (Number not_a_number) w = (Inr False, w) \<and>
   isNumberEqualTo positive_zero target property (Number negative_zero) w = (Inr True, w) \<and>
   validate answer_schema (literal [''answer'' \<mapsto> Number forty_two]) w =
     (Inr [(''answer'', Flags [(''isValidAnswer'', True), (''isValid'', True)]),
           (''isValid'', Flag True)], w) \<and>
   validate answer_schema (literal [''answer'' \<mapsto> String (utf16 ''42'')]) w =
     (Inr [(''answer'', Flags [(''isValidAnswer'', False), (''isValid'', False)]),
           (''isValid'', Flag False)], w) \<and>
   validate answer_schema (literal [''answer'' \<mapsto> Number forty_three]) w =
     (Inr [(''answer'', Flags [(''isValidAnswer'', False), (''isValid'', False)]),
           (''isValid'', Flag False)], w)"
proof -
  have a: "(\<forall>x. value \<noteq> Number x) \<longrightarrow>
      isNumberEqualTo n target property value w = (Inr False, w)"
    by (cases "value") (simp_all add: isNumberEqualTo_def)
  have b: "\<not> is_nan n \<longrightarrow> isNumberEqualTo n target property (Number n) w = (Inr True, w)"
    by (simp add: isNumberEqualTo_def number_equal_def)
  have c: "is_zero x \<and> is_zero n \<longrightarrow> isNumberEqualTo n target property (Number x) w = (Inr True, w)"
    by (auto simp: isNumberEqualTo_def number_equal_def dest: zero_not_nan)
  have d: "x \<noteq> n \<and> \<not> (is_zero x \<and> is_zero n) \<longrightarrow>
      isNumberEqualTo n target property (Number x) w = (Inr False, w)"
    by (auto simp: isNumberEqualTo_def number_equal_def)
  have e: "is_nan n \<or> is_nan x \<longrightarrow> isNumberEqualTo n target property (Number x) w = (Inr False, w)"
    by (auto simp: isNumberEqualTo_def number_equal_def)
  have f: "isNumberEqualTo forty_two target property (Number forty_three) w = (Inr False, w)"
    by (simp add: isNumberEqualTo_def number_equal_def is_nan_def is_zero_def forty_two_def
        forty_three_def)
  have g: "isNumberEqualTo not_a_number target property (Number not_a_number) w = (Inr False, w)"
    by (simp add: isNumberEqualTo_def number_equal_def is_nan_def not_a_number_def)
  have h: "isNumberEqualTo positive_zero target property (Number negative_zero) w = (Inr True, w)"
    by (simp add: isNumberEqualTo_def number_equal_def is_nan_def is_zero_def positive_zero_def
        negative_zero_def)
  have i: "validate answer_schema (literal [''answer'' \<mapsto> Number forty_two]) w =
     (Inr [(''answer'', Flags [(''isValidAnswer'', True), (''isValid'', True)]),
           (''isValid'', Flag True)], w)"
    by (simp add: validate_def fromEntries_def answer_schema_def isNumberEqualTo_def get_def
        literal_def number_equal_def is_nan_def is_zero_def forty_two_def)
  have j: "validate answer_schema (literal [''answer'' \<mapsto> String (utf16 ''42'')]) w =
     (Inr [(''answer'', Flags [(''isValidAnswer'', False), (''isValid'', False)]),
           (''isValid'', Flag False)], w)"
    by (simp add: validate_def fromEntries_def answer_schema_def isNumberEqualTo_def get_def
        literal_def)
  have k: "validate answer_schema (literal [''answer'' \<mapsto> Number forty_three]) w =
     (Inr [(''answer'', Flags [(''isValidAnswer'', False), (''isValid'', False)]),
           (''isValid'', Flag False)], w)"
    by (simp add: validate_def fromEntries_def answer_schema_def isNumberEqualTo_def get_def
        literal_def number_equal_def is_nan_def is_zero_def forty_two_def forty_three_def)
  from a b c d e f g h i j k show ?thesis by blast
qed

text \<open>
  The theorem at a string, at the expected number, at another number, at NaN and at the
  two zeros.
\<close>

theorem isNumberEqualTo_numeric_witness:
  "(\<forall>x. String (utf16 ''42'') \<noteq> Number x) \<and>
   isNumberEqualTo forty_two (literal Map.empty) ''answer'' (String (utf16 ''42'')) () = (Inr False, ()) \<and>
   \<not> is_nan forty_two \<and>
   isNumberEqualTo forty_two (literal Map.empty) ''answer'' (Number forty_two) () = (Inr True, ()) \<and>
   forty_three \<noteq> forty_two \<and> \<not> is_zero forty_three \<and>
   isNumberEqualTo forty_two (literal Map.empty) ''answer'' (Number forty_three) () = (Inr False, ()) \<and>
   is_nan not_a_number \<and>
   isNumberEqualTo forty_two (literal Map.empty) ''answer'' (Number not_a_number) () = (Inr False, ()) \<and>
   is_zero positive_zero \<and> is_zero negative_zero \<and> negative_zero \<noteq> positive_zero \<and>
   isNumberEqualTo negative_zero (literal Map.empty) ''answer'' (Number positive_zero) () = (Inr True, ())"
proof -
  have facts: "\<not> is_nan forty_two" "forty_three \<noteq> forty_two" "\<not> is_zero forty_three"
    "is_nan not_a_number" "is_zero positive_zero" "is_zero negative_zero"
    "negative_zero \<noteq> positive_zero"
    by (simp_all add: is_nan_def is_zero_def forty_two_def forty_three_def not_a_number_def
        positive_zero_def negative_zero_def)
  from facts
    isNumberEqualTo_numeric [of "String (utf16 ''42'')" forty_two "literal Map.empty" "''answer''"
      "()" forty_three]
    isNumberEqualTo_numeric [of "String (utf16 ''42'')" forty_two "literal Map.empty" "''answer''"
      "()" not_a_number]
    isNumberEqualTo_numeric [of "String (utf16 ''42'')" negative_zero "literal Map.empty" "''answer''"
      "()" positive_zero]
  show ?thesis by simp
qed

text \<open>
  C8. With the schema \<^verbatim>\<open>{ email: { isValidEmail: isEmail() } }\<close>, the target
  \<^verbatim>\<open>{ email: "email@domain.com" }\<close> gives a report that is true throughout, and the target
  \<^verbatim>\<open>{ email: "email@domain" }\<close> gives one that is false throughout.
\<close>

theorem isEmail_scenarios:
  "validate email_schema (literal [''email'' \<mapsto> String (utf16 ''email@domain.com'')]) w =
     (Inr [(''email'', Flags [(''isValidEmail'', True), (''isValid'', True)]),
           (''isValid'', Flag True)], w) \<and>
   validate email_schema (literal [''email'' \<mapsto> String (utf16 ''email@domain'')]) w =
     (Inr [(''email'', Flags [(''isValidEmail'', False), (''isValid'', False)]),
           (''isValid'', Flag False)], w)"
  by (simp add: validate_def fromEntries_def email_schema_def isEmail_def get_def literal_def object_prototype_def
      email_accepted email_refused)

text \<open>
  C9. For every \<^verbatim>\<open>RegExp\<close>, \<open>doesMatch\<close> and \<open>doesNotMatch\<close> resolve to false on every value that
  is not a string and whenever \<^verbatim>\<open>test\<close> throws; on a string they resolve to the result of
  \<^verbatim>\<open>test\<close> and to its negation; they never reject.
\<close>

theorem doesMatch_catches:
  "(typeof value \<noteq> ''string'' \<longrightarrow>
      doesMatch regex target property value w = (Inr False, w) \<and>
      doesNotMatch regex target property value w = (Inr False, w)) \<and>
   (\<forall>s error w'. value = String s \<and> regex s w = (Inl error, w') \<longrightarrow>
      doesMatch regex target property value w = (Inr False, w') \<and>
      doesNotMatch regex target property value w = (Inr False, w')) \<and>
   (\<forall>s matched w'. value = String s \<and> regex s w = (Inr matched, w') \<longrightarrow>
      doesMatch regex target property value w = (Inr matched, w') \<and>
      doesNotMatch regex target property value w = (Inr (\<not> matched), w')) \<and>
   (\<exists>b w'. doesMatch regex target property value w = (Inr b, w')) \<and>
   (\<exists>b w'. doesNotMatch regex target property value w = (Inr b, w'))"
  by (cases "value") (auto simp: doesMatch_def doesNotMatch_def split: prod.splits sum.splits)

text \<open>
  The theorem at a number, at a \<^verbatim>\<open>test\<close> that throws, and at a pattern that matches.
\<close>

theorem doesMatch_catches_witness:
  "typeof (Number forty_two) \<noteq> ''string'' \<and>
   doesMatch (\<lambda>s w. (Inl (String (utf16 ''invalid'')), w)) (literal Map.empty) ''color'' (Number forty_two) () =
     (Inr False, ()) \<and>
   doesNotMatch (\<lambda>s w. (Inl (String (utf16 ''invalid'')), w)) (literal Map.empty) ''color'' (Number forty_two) () =
     (Inr False, ()) \<and>
   doesMatch (\<lambda>s w. (Inl (String (utf16 ''invalid'')), w)) (literal Map.empty) ''color''
     (String (utf16 ''light'')) () = (Inr False, ()) \<and>
   doesNotMatch (\<lambda>s w. (Inl (String (utf16 ''invalid'')), w)) (literal Map.empty) ''color''
     (String (utf16 ''light'')) () = (Inr False, ()) \<and>
   doesMatch (regExp password_regex) (literal Map.empty) ''color'' (String (utf16 ''Aa1!aaaa'')) () =
     (Inr True, ()) \<and>
   doesNotMatch (regExp password_regex) (literal Map.empty) ''color'' (String (utf16 ''Aa1!aaaa'')) () =
     (Inr False, ())"
proof -
  let ?throws = "\<lambda>(s :: code_unit list) (w :: unit). (Inl (String (utf16 ''invalid'')) :: reason + bool, w)"
  have t: "typeof (Number forty_two) \<noteq> ''string''" by simp
  have m: "regExp password_regex (utf16 ''Aa1!aaaa'') () = (Inr True, ())"
    by (simp add: regExp_def password_eight)
  from doesMatch_catches [of "String (utf16 ''Aa1!aaaa'')" "regExp password_regex" "literal Map.empty"
      "''color''" "()"] m
  have "doesMatch (regExp password_regex) (literal Map.empty) ''color'' (String (utf16 ''Aa1!aaaa'')) () =
          (Inr True, ()) \<and>
        doesNotMatch (regExp password_regex) (literal Map.empty) ''color'' (String (utf16 ''Aa1!aaaa'')) () =
          (Inr False, ())"
    by force
  with doesMatch_catches [of "Number forty_two" ?throws "literal Map.empty" "''color''" "()"]
    doesMatch_catches [of "String (utf16 ''light'')" ?throws "literal Map.empty" "''color''" "()"] t
  show ?thesis by simp
qed

text \<open>
  C10. The claim: \<^verbatim>\<open>isEqualToProperty(other)\<close> resolves to true exactly when
  \<^verbatim>\<open>target[other]\<close> is strictly equal to the checked value, with no check of type or
  presence; in particular it passes when the target has neither property. The first part
  holds: where one side is not a number the rule resolves to whether the two are the
  same value (so a number never equals a string), and two numbers compare as \<^verbatim>\<open>===\<close>
  compares them. The second part holds when \<^verbatim>\<open>target[other]\<close> and \<^verbatim>\<open>target[property]\<close> both read
  \<^verbatim>\<open>undefined\<close>; a name that the target only inherits reads as what it inherits.
\<close>

theorem isEqualToProperty_strict:
  "(reads target otherProperty found \<and> ((\<forall>x. found \<noteq> Number x) \<or> (\<forall>y. value \<noteq> Number y)) \<longrightarrow>
      isEqualToProperty otherProperty target property value w = (Inr (found = value), w)) \<and>
   (reads target otherProperty (Number x) \<longrightarrow>
      isEqualToProperty otherProperty target property (Number y) w =
        (Inr (\<not> is_nan x \<and> \<not> is_nan y \<and> (x = y \<or> (is_zero x \<and> is_zero y))), w)) \<and>
   (reads target property Undefined \<and> reads target otherProperty Undefined \<and>
    property \<noteq> ''isValid'' \<and> ruleName \<noteq> ''isValid'' \<longrightarrow>
      validate [(property, [(ruleName, isEqualToProperty otherProperty)])] target w =
        (Inr [(property, Flags [(ruleName, True), (''isValid'', True)]),
              (''isValid'', Flag True)], w))"
proof -
  have a: "reads target otherProperty found \<and>
      ((\<forall>x. found \<noteq> Number x) \<or> (\<forall>y. value \<noteq> Number y)) \<longrightarrow>
      isEqualToProperty otherProperty target property value w = (Inr (found = value), w)"
    by (cases found; cases "value") (auto simp: reads_get isEqualToProperty_def)
  have b: "reads target otherProperty (Number x) \<longrightarrow>
      isEqualToProperty otherProperty target property (Number y) w =
        (Inr (\<not> is_nan x \<and> \<not> is_nan y \<and> (x = y \<or> (is_zero x \<and> is_zero y))), w)"
    by (auto simp: reads_get isEqualToProperty_def number_equal_def)
  have c: "reads target property Undefined \<and> reads target otherProperty Undefined \<and>
    property \<noteq> ''isValid'' \<and> ruleName \<noteq> ''isValid'' \<longrightarrow>
      validate [(property, [(ruleName, isEqualToProperty otherProperty)])] target w =
        (Inr [(property, Flags [(ruleName, True), (''isValid'', True)]),
              (''isValid'', Flag True)], w)"
    by (simp add: reads_get validate_def fromEntries_def isEqualToProperty_def)
  from a b c show ?thesis by blast
qed

text \<open>
  The theorem at a password and its confirmation, equal and different, at a number against
  a string, and at \<^verbatim>\<open>{}\<close> with two names it does not inherit.
\<close>

theorem isEqualToProperty_strict_witness:
  "reads (literal [''password'' \<mapsto> String (utf16 ''Aa1!aaaa''),
                   ''confirmation'' \<mapsto> String (utf16 ''Aa1!aaab'')]) ''password''
     (String (utf16 ''Aa1!aaaa'')) \<and>
   isEqualToProperty ''password''
     (literal [''password'' \<mapsto> String (utf16 ''Aa1!aaaa''),
               ''confirmation'' \<mapsto> String (utf16 ''Aa1!aaab'')]) ''confirmation''
     (String (utf16 ''Aa1!aaab'')) () = (Inr False, ()) \<and>
   isEqualToProperty ''password''
     (literal [''password'' \<mapsto> String (utf16 ''Aa1!aaaa''),
               ''confirmation'' \<mapsto> String (utf16 ''Aa1!aaab'')]) ''confirmation''
     (String (utf16 ''Aa1!aaaa'')) () = (Inr True, ()) \<and>
   isEqualToProperty ''password''
     (literal [''password'' \<mapsto> String (utf16 ''Aa1!aaaa''),
               ''confirmation'' \<mapsto> String (utf16 ''Aa1!aaab'')]) ''confirmation''
     (Number forty_two) () = (Inr False, ()) \<and>
   reads (literal [''answer'' \<mapsto> Number forty_two]) ''answer'' (Number forty_two) \<and>
   isEqualToProperty ''answer'' (literal [''answer'' \<mapsto> Number forty_two]) ''copy''
     (Number forty_two) () = (Inr True, ()) \<and>
   isEqualToProperty ''answer'' (literal [''answer'' \<mapsto> Number forty_two]) ''copy''
     (String (utf16 ''42'')) () = (Inr False, ()) \<and>
   reads (literal Map.empty) ''confirmation'' Undefined \<and>
   reads (literal Map.empty) ''password'' Undefined \<and>
   validate [(''confirmation'', [(''matches'', isEqualToProperty ''password'')])]
     (literal Map.empty) () =
     (Inr [(''confirmation'', Flags [(''matches'', True), (''isValid'', True)]),
           (''isValid'', Flag True)], ())"
proof -
  let ?T = "literal [''password'' \<mapsto> String (utf16 ''Aa1!aaaa''),
                     ''confirmation'' \<mapsto> String (utf16 ''Aa1!aaab'')]"
  let ?N = "literal [''answer'' \<mapsto> Number forty_two]"
  have r: "reads ?T ''password'' (String (utf16 ''Aa1!aaaa''))"
    "reads ?N ''answer'' (Number forty_two)"
    "reads (literal Map.empty) ''confirmation'' Undefined"
    "reads (literal Map.empty) ''password'' Undefined"
    by (simp_all add: reads_def literal_def object_prototype_def)
  have n: "\<not> is_nan forty_two"
    by (simp add: is_nan_def forty_two_def)
  have differ: "utf16 ''Aa1!aaaa'' \<noteq> utf16 ''Aa1!aaab''"
    by (simp add: utf16_def)
  from r n differ
    isEqualToProperty_strict [of ?T "''password''" "String (utf16 ''Aa1!aaaa'')"
      "String (utf16 ''Aa1!aaab'')" "''confirmation''" "()"]
    isEqualToProperty_strict [of ?T "''password''" "String (utf16 ''Aa1!aaaa'')"
      "String (utf16 ''Aa1!aaaa'')" "''confirmation''" "()"]
    isEqualToProperty_strict [of ?T "''password''" "String (utf16 ''Aa1!aaaa'')"
      "Number forty_two" "''confirmation''" "()"]
    isEqualToProperty_strict [of ?N "''answer''" "Number forty_two"
      "String (utf16 ''42'')" "''copy''" "()" forty_two forty_two]
    isEqualToProperty_strict [of "literal Map.empty" "''password''" Undefined Undefined
      "''confirmation''" "()" _ _ "''matches''"]
  show ?thesis by simp
qed

text \<open>
  \<^verbatim>\<open>{}\<close> has neither \<^verbatim>\<open>confirmation\<close> nor \<^verbatim>\<open>toString\<close> of its own, and the rule fails: the
  checked value is \<^verbatim>\<open>undefined\<close> and \<^verbatim>\<open>target["toString"]\<close> is the inherited function.
\<close>

theorem isEqualToProperty_strict_counterexample:
  "own (literal Map.empty) ''confirmation'' = None \<and>
   own (literal Map.empty) ''toString'' = None \<and>
   get (literal Map.empty) ''confirmation'' = Undefined \<and>
   isEqualToProperty ''toString'' (literal Map.empty) ''confirmation'' Undefined () =
     (Inr False, ()) \<and>
   validate [(''confirmation'', [(''matches'', isEqualToProperty ''toString'')])]
     (literal Map.empty) () =
     (Inr [(''confirmation'', Flags [(''matches'', False), (''isValid'', False)]),
           (''isValid'', Flag False)], ())"
  by (simp add: validate_def fromEntries_def isEqualToProperty_def get_def literal_def
      object_prototype_def)

end
